theory Spec2Isabelle
  imports Main "HOL-Library.List_Lexorder"
begin

section \<open>Copy files over SSH: selection, path mapping, directory plan and transfer\<close>

text \<open>
  The task \<^verbatim>\<open>copyfilesoverssh.ts\<close> selects files under a source folder with include
  and exclude glob patterns, maps every selected file to a remote path, creates the
  remote folders and uploads the files in batches of ten.

  The functions the task takes from Node's \<^verbatim>\<open>path\<close> module, from
  \<^verbatim>\<open>minimatch\<close> and from \<^verbatim>\<open>./utils\<close> are not part of the source file; they
  are the fields of the record \<open>lib\<close>, so every general theorem below holds for
  whatever these functions compute. The line numbers are those of
  \<^verbatim>\<open>_generated/CopyFilesOverSSHV0_Node20/copyfilesoverssh.ts\<close>.
\<close>

subsection \<open>Strings\<close>

text \<open>
  A JavaScript string is the list of its UTF-16 code units, each taken as its number:
  this is what \<^verbatim>\<open>length\<close>, \<^verbatim>\<open>substring\<close>, \<^verbatim>\<open>===\<close> and the default
  \<^verbatim>\<open>sort\<close> count and compare. \<open>js\<close> turns a literal into such a list.
\<close>

type_synonym jschar = int

type_synonym jsstring = "int list"

definition code_unit :: "char \<Rightarrow> jschar" where
  "code_unit c = of_char c"

definition js :: "char list \<Rightarrow> jsstring" where
  "js s = map code_unit s"

subsection \<open>The environment of the task\<close>

record lib =
  path_join :: "jsstring \<Rightarrow> jsstring \<Rightarrow> jsstring"
  path_dirname :: "jsstring \<Rightarrow> jsstring"
  posix_dirname :: "jsstring \<Rightarrow> jsstring"
  path_basename :: "jsstring \<Rightarrow> jsstring"
  posix_join :: "jsstring \<Rightarrow> jsstring \<Rightarrow> jsstring"
  isAbsolute :: "jsstring \<Rightarrow> bool"
  pathIsUNC :: "jsstring \<Rightarrow> bool"
  unixyPath :: "jsstring \<Rightarrow> jsstring"
  getCleanTargetFolderCmd :: "jsstring \<Rightarrow> bool \<Rightarrow> bool \<Rightarrow> jsstring"
  glob :: "jsstring \<Rightarrow> jsstring \<Rightarrow> bool"

text \<open>
  \<open>glob L p f\<close> is the decision of the matching library on the path \<open>f\<close> for a
  pattern \<open>p\<close> that has no leading negation left, under the options the task passes
  (\<^verbatim>\<open>matchBase\<close>, \<^verbatim>\<open>dot\<close>, and \<^verbatim>\<open>nocase\<close> on Windows).
\<close>

text \<open>
  The source tree as one snapshot: what \<^verbatim>\<open>tl.find\<close> lists for a folder, and what
  \<^verbatim>\<open>tl.stats(p).isDirectory()\<close> answers for a path.
\<close>

record filesystem =
  tl_find :: "jsstring \<Rightarrow> jsstring list"
  tl_isDirectory :: "jsstring \<Rightarrow> bool"

subsection \<open>Pattern classification (lines 17 to 39)\<close>

text \<open>
  \<^verbatim>\<open>x.trim()\<close> removes, at both ends, the white space and the line terminators of
  ECMAScript: TAB, LF, VT, FF, CR, SP, NBSP, U+1680, U+2000 to U+200A, U+2028, U+2029,
  U+202F, U+205F, U+3000 and U+FEFF.
\<close>

definition is_white :: "jschar \<Rightarrow> bool" where
  "is_white c =
     (c \<in> set [0x09, 0x0A, 0x0B, 0x0C, 0x0D, 0x20, 0xA0, 0x1680, 0x2028, 0x2029, 0x202F,
                0x205F, 0x3000, 0xFEFF]
      \<or> (0x2000 \<le> c \<and> c \<le> 0x200A))"

definition js_trim :: "jsstring \<Rightarrow> jsstring" where
  "js_trim s = rev (dropWhile is_white (rev (dropWhile is_white s)))"

text \<open>
  The inner loop over the characters of a pattern: every leading \<^verbatim>\<open>!\<close> flips
  \<^verbatim>\<open>negate\<close> and is counted; the first other character ends the loop.
\<close>

fun scan_negations :: "jsstring \<Rightarrow> bool \<times> nat \<Rightarrow> bool \<times> nat" where
  "scan_negations [] (negate, numberOfNegations) = (negate, numberOfNegations)"
| "scan_negations (c # cs) (negate, numberOfNegations) =
     (if c = code_unit CHR ''!'' then scan_negations cs (\<not> negate, Suc numberOfNegations)
      else (negate, numberOfNegations))"

definition classify_pattern ::
  "lib \<Rightarrow> jsstring \<Rightarrow> jsstring \<Rightarrow> jsstring list \<times> jsstring list \<Rightarrow> jsstring list \<times> jsstring list" where
  "classify_pattern L sourceFolder pattern acc =
     (case acc of (includeContents, excludeContents) \<Rightarrow>
        (case scan_negations pattern (False, 0) of (negate, numberOfNegations) \<Rightarrow>
           if negate
           then (includeContents,
                 excludeContents @
                   [take numberOfNegations pattern @
                    path_join L sourceFolder (drop numberOfNegations pattern)])
           else (includeContents @ [path_join L sourceFolder pattern], excludeContents)))"

definition classify :: "lib \<Rightarrow> jsstring \<Rightarrow> jsstring list \<Rightarrow> jsstring list \<times> jsstring list" where
  "classify L sourceFolder contents =
     fold (classify_pattern L sourceFolder) (map js_trim contents) ([], [])"

subsection \<open>Matching (lines 41 to 99)\<close>

text \<open>The number of \<^verbatim>\<open>!\<close> characters a string starts with.\<close>

definition leading_negations :: "jsstring \<Rightarrow> nat" where
  "leading_negations p = length (takeWhile (\<lambda>c. c = code_unit CHR ''!'') p)"

text \<open>
  \<^verbatim>\<open>minimatch.match(list, pattern, options)\<close> keeps the paths of the list that the
  pattern accepts. The library reads the run of leading \<^verbatim>\<open>!\<close> of the pattern
  itself: an odd run negates the decision taken for the rest of the pattern.
\<close>

definition minimatch :: "(jsstring \<Rightarrow> jsstring \<Rightarrow> bool) \<Rightarrow> jsstring \<Rightarrow> jsstring \<Rightarrow> bool" where
  "minimatch g pattern f =
     (let k = leading_negations pattern
      in if even k then g (drop k pattern) f else \<not> g (drop k pattern) f)"

definition minimatch_match ::
  "(jsstring \<Rightarrow> jsstring \<Rightarrow> bool) \<Rightarrow> jsstring list \<Rightarrow> jsstring \<Rightarrow> jsstring list" where
  "minimatch_match g list pattern = filter (minimatch g pattern) list"

text \<open>
  \<^verbatim>\<open>pathsSeen\<close> is a plain object used as a dictionary. The model keeps its own
  properties as a map. The test \<^verbatim>\<open>pathsSeen.hasOwnProperty(k)\<close> looks the method up
  on the object itself first: once the key \<^verbatim>\<open>hasOwnProperty\<close> has been stored, the
  property is the value \<^verbatim>\<open>true\<close> and the call throws a \<^verbatim>\<open>TypeError\<close>. The
  assignment \<^verbatim>\<open>pathsSeen[k] = true\<close> stores an own property, except for the key
  \<^verbatim>\<open>__proto__\<close>: that assignment goes to the setter of \<^verbatim>\<open>Object.prototype\<close>,
  which ignores a value that is not an object, and stores nothing.
\<close>

datatype js_error = TypeError

definition hasOwnProperty :: "(jsstring \<rightharpoonup> bool) \<Rightarrow> jsstring \<Rightarrow> js_error + bool" where
  "hasOwnProperty pathsSeen k =
     (if pathsSeen (js ''hasOwnProperty'') \<noteq> None then Inl TypeError
      else Inr (pathsSeen k \<noteq> None))"

definition set_property :: "(jsstring \<rightharpoonup> bool) \<Rightarrow> jsstring \<Rightarrow> (jsstring \<rightharpoonup> bool)" where
  "set_property pathsSeen k =
     (if k = js ''__proto__'' then pathsSeen else pathsSeen(k \<mapsto> True))"

text \<open>
  The loop over the matches of one include pattern (lines 77 to 82): \<^verbatim>\<open>files\<close> is
  the result list. An error thrown leaves the loop and the function.
\<close>

fun add_matches ::
  "jsstring list \<Rightarrow> (jsstring \<rightharpoonup> bool) \<times> jsstring list
     \<Rightarrow> js_error + (jsstring \<rightharpoonup> bool) \<times> jsstring list" where
  "add_matches [] (pathsSeen, files) = Inr (pathsSeen, files)"
| "add_matches (matchPath # matches) (pathsSeen, files) =
     (case hasOwnProperty pathsSeen matchPath of
        Inl e \<Rightarrow> Inl e
      | Inr seen \<Rightarrow>
          if \<not> seen
          then add_matches matches (set_property pathsSeen matchPath, files @ [matchPath])
          else add_matches matches (pathsSeen, files))"

text \<open>The loop over the include patterns (lines 70 to 83).\<close>

fun include_loop ::
  "(jsstring \<Rightarrow> jsstring \<Rightarrow> bool) \<Rightarrow> jsstring list \<Rightarrow> jsstring list
     \<Rightarrow> (jsstring \<rightharpoonup> bool) \<times> jsstring list
     \<Rightarrow> js_error + (jsstring \<rightharpoonup> bool) \<times> jsstring list" where
  "include_loop g allFiles [] st = Inr st"
| "include_loop g allFiles (pattern # rest) st =
     (case add_matches (minimatch_match g allFiles pattern) st of
        Inl e \<Rightarrow> Inl e
      | Inr st' \<Rightarrow> include_loop g allFiles rest st')"

definition apply_includes ::
  "(jsstring \<Rightarrow> jsstring \<Rightarrow> bool) \<Rightarrow> jsstring list \<Rightarrow> jsstring list
     \<Rightarrow> js_error + jsstring list" where
  "apply_includes g allFiles includeContents =
     (case include_loop g allFiles includeContents (Map.empty, []) of
        Inl e \<Rightarrow> Inl e
      | Inr (pathsSeen, files) \<Rightarrow> Inr files)"

text \<open>The loop over the exclude patterns (lines 86 to 97).\<close>

definition apply_excludes ::
  "(jsstring \<Rightarrow> jsstring \<Rightarrow> bool) \<Rightarrow> jsstring list \<Rightarrow> jsstring list \<Rightarrow> jsstring list" where
  "apply_excludes g excludeContents files =
     fold (\<lambda>pattern files. minimatch_match g files pattern) excludeContents files"

text \<open>The function returns the selection, or the error thrown on its way.\<close>

definition getFilesToCopy ::
  "lib \<Rightarrow> filesystem \<Rightarrow> jsstring \<Rightarrow> jsstring list \<Rightarrow> js_error + jsstring list" where
  "getFilesToCopy L F sourceFolder contents =
     (case classify L sourceFolder contents of (includeContents, excludeContents) \<Rightarrow>
        let allFiles = filter (\<lambda>p. \<not> tl_isDirectory F p) (tl_find F sourceFolder);
            includeContents =
              (if includeContents = [] \<and> excludeContents \<noteq> []
               then includeContents @ [js ''**''] else includeContents)
        in case apply_includes (glob L) allFiles includeContents of
             Inl e \<Rightarrow> Inl e
           | Inr files \<Rightarrow> Inr (apply_excludes (glob L) excludeContents files))"

text \<open>
  A path that \<^verbatim>\<open>pathsSeen\<close> records like a dictionary would: any string but the two
  keys above.
\<close>

definition ordinary_key :: "jsstring \<Rightarrow> bool" where
  "ordinary_key p = (p \<noteq> js ''__proto__'' \<and> p \<noteq> js ''hasOwnProperty'')"

text \<open>
  Deduplication that keeps the first occurrence of every element, in the words of the
  specification ("deduplicated, first-seen order").
\<close>

definition dedup_first_seen :: "'a list \<Rightarrow> 'a list" where
  "dedup_first_seen xs = rev (remdups (rev xs))"

subsection \<open>Path mapping (lines 102 to 117)\<close>

text \<open>\<^verbatim>\<open>s.replace(/^c/g, "")\<close> for a single character \<open>c\<close>.\<close>

definition strip_leading :: "jschar \<Rightarrow> jsstring \<Rightarrow> jsstring" where
  "strip_leading c s = (case s of [] \<Rightarrow> [] | x # xs \<Rightarrow> if x = c then xs else s)"

definition prepareFile :: "lib \<Rightarrow> jsstring \<Rightarrow> jsstring \<Rightarrow> bool \<Rightarrow> jsstring \<Rightarrow> jsstring \<times> jsstring" where
  "prepareFile L sourceFolder targetFolder flattenFolders x =
     (let targetPath =
            posix_join L targetFolder
              (if flattenFolders then path_basename L x
               else strip_leading (code_unit CHR ''/'')
                      (strip_leading (code_unit (CHR 0x5C)) (drop (length sourceFolder) x)));
          targetPath =
            (if \<not> isAbsolute L targetPath \<and> \<not> pathIsUNC L targetPath
             then js ''./'' @ targetPath else targetPath)
      in (x, unixyPath L targetPath))"

definition prepareFiles ::
  "lib \<Rightarrow> jsstring list \<Rightarrow> jsstring \<Rightarrow> jsstring \<Rightarrow> bool \<Rightarrow> (jsstring \<times> jsstring) list" where
  "prepareFiles L filesToCopy sourceFolder targetFolder flattenFolders =
     map (prepareFile L sourceFolder targetFolder flattenFolders) filesToCopy"

subsection \<open>Directory planning (lines 119 to 133)\<close>

text \<open>
  \<^verbatim>\<open>foldersSet\<close> is a JavaScript \<^verbatim>\<open>Set\<close>, which keeps its members in insertion
  order: a list without repetition, read out as it stands by \<^verbatim>\<open>Array.from\<close>.
\<close>

fun collect_folders :: "lib \<Rightarrow> jsstring list \<Rightarrow> jsstring list \<Rightarrow> jsstring list" where
  "collect_folders L [] foldersSet = foldersSet"
| "collect_folders L (filePath # rest) foldersSet =
     (let folderPath = path_dirname L filePath
      in if folderPath \<in> set foldersSet then collect_folders L rest foldersSet
         else collect_folders L rest (foldersSet @ [folderPath]))"

definition getUniqueFolders :: "lib \<Rightarrow> jsstring list \<Rightarrow> jsstring list" where
  "getUniqueFolders L filesToCopy = collect_folders L filesToCopy []"

text \<open>\<^verbatim>\<open>x.startsWith(p)\<close>.\<close>

definition startsWith :: "jsstring \<Rightarrow> jsstring \<Rightarrow> bool" where
  "startsWith x p = (take (length p) x = p)"

text \<open>
  \<open>a\<close> is a path-prefix ancestor of \<open>b\<close>: \<open>b\<close> continues \<open>a\<close> below a separator.
\<close>

definition path_ancestor :: "jsstring \<Rightarrow> jsstring \<Rightarrow> bool" where
  "path_ancestor a b = (a \<noteq> b \<and> startsWith b (a @ js ''/''))"

text \<open>
  The older variant of the task plans the folders inside \<^verbatim>\<open>createRemoteFolders\<close>, by a
  \<^verbatim>\<open>reduce\<close> over the mapped pairs: the folder of a pair is added when no folder
  added before starts with it.
\<close>

definition uniqueRemotePaths_step :: "lib \<Rightarrow> jsstring list \<Rightarrow> jsstring \<times> jsstring \<Rightarrow> jsstring list" where
  "uniqueRemotePaths_step L acc cur =
     (let directoryPath = posix_dirname L (snd cur)
      in if length (filter (\<lambda>x. startsWith x directoryPath) acc) = 0
         then acc @ [directoryPath] else acc)"

definition uniqueRemotePaths :: "lib \<Rightarrow> (jsstring \<times> jsstring) list \<Rightarrow> jsstring list" where
  "uniqueRemotePaths L paths = foldl (uniqueRemotePaths_step L) [] paths"

text \<open>
  The glob an exclude pattern stands for: what follows the negation run of the trimmed
  pattern, joined to the source folder (line 32).
\<close>

definition exclude_glob :: "lib \<Rightarrow> jsstring \<Rightarrow> jsstring \<Rightarrow> jsstring" where
  "exclude_glob L sourceFolder p =
     path_join L sourceFolder (drop (leading_negations (js_trim p)) (js_trim p))"

subsection \<open>The run (lines 135 to 310)\<close>

text \<open>
  The messages of the task, by their resource key and arguments; \<open>Thrown e\<close> is an
  error \<open>e\<close> raised by the SSH helper and passed on as it is, \<open>Uncaught e\<close> an
  error of the JavaScript runtime.
\<close>

datatype message =
    SourceNotFolder
  | CleanTargetFolder jsstring
  | CleanTargetFolderFailed jsstring
  | CopyDirectoryCompleted jsstring
  | CopyDirectoryFailed jsstring jsstring
  | CopyingFiles nat
  | FolderCreated jsstring
  | TargetNotCreated jsstring jsstring
  | FoldersCreated nat
  | StartedFileCopy jsstring jsstring
  | FileExists jsstring
  | NumberFailed nat
  | CopyCompleted nat
  | NothingToCopy
  | Thrown jsstring
  | Uncaught js_error

text \<open>
  What a run does, in the order of its calls: the calls of the SSH helper, and the
  lines written with \<^verbatim>\<open>console.log\<close>, \<^verbatim>\<open>tl.warning\<close> and \<^verbatim>\<open>tl.error\<close>
  (\<^verbatim>\<open>tl.debug\<close> lines are left out).
\<close>

datatype event =
    SetupConnection
  | Exists jsstring
  | RunCommand jsstring
  | UploadFolder jsstring jsstring
  | CreateDir jsstring
  | Upload jsstring jsstring
  | Close
  | Log message
  | Warning message
  | Error message

text \<open>
  The answers of the remote side, one per call and argument: \<open>None\<close> (or \<open>Inr\<close>) when
  the promise is fulfilled, the reason when it is rejected.
\<close>

record remote =
  setupConnection :: "jsstring option"
  checkRemotePathExists :: "jsstring \<Rightarrow> jsstring + bool"
  runCommandOnRemoteMachine :: "jsstring \<Rightarrow> jsstring option"
  uploadFolder :: "jsstring \<Rightarrow> jsstring \<Rightarrow> jsstring + jsstring"
  createRemoteDirectory :: "jsstring \<Rightarrow> jsstring option"
  uploadFile :: "jsstring \<Rightarrow> jsstring \<Rightarrow> jsstring option"

text \<open>The inputs as lines 183 to 198 read them.\<close>

record inputs =
  contents :: "jsstring list"
  sourceFolder :: jsstring
  targetFolder :: "jsstring option"
  cleanTargetFolder :: bool
  overwrite :: bool
  failOnEmptySource :: bool
  flattenFolders :: bool
  isWindowsOnTarget :: bool
  cleanHiddenFilesInTarget :: bool

text \<open>The verdict: \<open>Succeeded\<close> when \<^verbatim>\<open>tl.setResult\<close> is never called.\<close>

datatype verdict = Succeeded | Failed message

datatype settled = Fulfilled | Rejected message

fun is_rejected :: "settled \<Rightarrow> bool" where
  "is_rejected (Rejected m) = True"
| "is_rejected Fulfilled = False"

fun is_fulfilled :: "settled \<Rightarrow> bool" where
  "is_fulfilled Fulfilled = True"
| "is_fulfilled (Rejected m) = False"

text \<open>\<^verbatim>\<open>x.reason\<close>; the run reads it on rejected results only.\<close>

fun reason :: "settled \<Rightarrow> message" where
  "reason (Rejected m) = m"
| "reason Fulfilled = Thrown []"

text \<open>Lines 187 to 192: the default target, and \<^verbatim>\<open>~/\<close> rewritten to \<^verbatim>\<open>./\<close>.\<close>

definition resolve_targetFolder :: "jsstring option \<Rightarrow> jsstring" where
  "resolve_targetFolder t =
     (case t of
        None \<Rightarrow> js ''./''
      | Some tf \<Rightarrow>
          if tf = [] then js ''./''
          else if take 2 tf = js ''~/'' then js ''./'' @ drop 2 tf else tf)"

text \<open>Lines 208 to 218. The second component is the error thrown, if any.\<close>

definition clean_target :: "lib \<Rightarrow> remote \<Rightarrow> inputs \<Rightarrow> jsstring \<Rightarrow> event list \<times> message option" where
  "clean_target L R I target =
     (if cleanTargetFolder I then
        (case checkRemotePathExists R target of
           Inl e \<Rightarrow> ([Exists target], Some (Thrown e))
         | Inr ex \<Rightarrow>
             if ex then
               (let cleanTargetFolderCmd =
                      getCleanTargetFolderCmd L target (isWindowsOnTarget I)
                        (cleanHiddenFilesInTarget I);
                    ev = [Exists target, Log (CleanTargetFolder target),
                          RunCommand cleanTargetFolderCmd]
                in case runCommandOnRemoteMachine R cleanTargetFolderCmd of
                     Some err \<Rightarrow> (ev, Some (CleanTargetFolderFailed err))
                   | None \<Rightarrow> (ev, None))
             else ([Exists target], None))
      else ([], None))"

text \<open>Lines 245 to 252: the folders are created one after the other.\<close>

fun create_folders :: "remote \<Rightarrow> jsstring list \<Rightarrow> event list \<times> message option" where
  "create_folders R [] = ([], None)"
| "create_folders R (foldersPath # rest) =
     (case createRemoteDirectory R foldersPath of
        Some err \<Rightarrow> ([CreateDir foldersPath], Some (TargetNotCreated foldersPath err))
      | None \<Rightarrow>
          (case create_folders R rest of
             (ev, r) \<Rightarrow> (CreateDir foldersPath # Log (FolderCreated foldersPath) # ev, r)))"

text \<open>Lines 265 to 281: the task of one file, with the calls it makes.\<close>

definition upload_task :: "remote \<Rightarrow> jsstring \<Rightarrow> jsstring \<Rightarrow> event list \<times> settled" where
  "upload_task R fileToCopy targetPath =
     ([Upload fileToCopy targetPath],
      case uploadFile R fileToCopy targetPath of
        None \<Rightarrow> Fulfilled
      | Some e \<Rightarrow> Rejected (Thrown e))"

definition copy_task :: "remote \<Rightarrow> bool \<Rightarrow> jsstring \<times> jsstring \<Rightarrow> event list \<times> settled" where
  "copy_task R ow pathTuple =
     (case pathTuple of (fileToCopy, targetPath) \<Rightarrow>
        if \<not> ow then
          (case checkRemotePathExists R targetPath of
             Inl e \<Rightarrow>
               ([Log (StartedFileCopy fileToCopy targetPath), Exists targetPath],
                Rejected (Thrown e))
           | Inr fileExists \<Rightarrow>
               if fileExists
               then ([Log (StartedFileCopy fileToCopy targetPath), Exists targetPath],
                     Rejected (FileExists targetPath))
               else (case upload_task R fileToCopy targetPath of
                       (ev, r) \<Rightarrow>
                         (Log (StartedFileCopy fileToCopy targetPath) # Exists targetPath # ev,
                          r)))
        else (case upload_task R fileToCopy targetPath of
                (ev, r) \<Rightarrow> (Log (StartedFileCopy fileToCopy targetPath) # ev, r)))"

text \<open>
  \<^verbatim>\<open>Promise.allSettled(chunk.map(...))\<close>: every task of the chunk runs to its end and
  gives its own result, in the order of the chunk. The calls of a batch are listed
  task by task.
\<close>

definition run_batch :: "remote \<Rightarrow> bool \<Rightarrow> (jsstring \<times> jsstring) list \<Rightarrow> (event list \<times> settled) list" where
  "run_batch R ow chunk = map (copy_task R ow) chunk"

definition chunkSize :: nat where
  "chunkSize = 10"

text \<open>\<^verbatim>\<open>Math.ceil(n / chunkSize)\<close>.\<close>

definition chunks_of :: "nat \<Rightarrow> nat" where
  "chunks_of n = (n + chunkSize - 1) div chunkSize"

text \<open>\<^verbatim>\<open>preparedFiles.slice(i * chunkSize, i * chunkSize + chunkSize)\<close>.\<close>

definition chunk_at :: "(jsstring \<times> jsstring) list \<Rightarrow> nat \<Rightarrow> (jsstring \<times> jsstring) list" where
  "chunk_at preparedFiles i = take chunkSize (drop (i * chunkSize) preparedFiles)"

text \<open>
  Lines 261 to 294, from the iteration \<open>i\<close> on. The result is the calls made, the
  settled results of every batch dispatched, and either the message of the failure
  set with \<^verbatim>\<open>tl.setResult\<close> before the \<^verbatim>\<open>return\<close>, or the number of files copied.
\<close>

function upload_chunks ::
  "remote \<Rightarrow> bool \<Rightarrow> (jsstring \<times> jsstring) list \<Rightarrow> nat \<Rightarrow> nat \<Rightarrow> nat
     \<Rightarrow> event list \<times> settled list list \<times> (message + nat)" where
  "upload_chunks R ow preparedFiles chunks i successedFiles =
     (if i < chunks then
        (let tasks = run_batch R ow (chunk_at preparedFiles i);
             results = map snd tasks;
             errors = filter is_rejected results
         in if length errors > 0
            then (concat (map fst tasks) @ map (\<lambda>x. Error (reason x)) errors,
                  [results], Inl (NumberFailed (length errors)))
            else (case upload_chunks R ow preparedFiles chunks (Suc i)
                         (successedFiles + length (filter is_fulfilled results)) of
                    (ev, batches, r) \<Rightarrow> (concat (map fst tasks) @ ev, results # batches, r)))
      else ([Log (CopyCompleted successedFiles)], [], Inr successedFiles))"
  by pat_completeness auto
termination
  by (relation "measure (\<lambda>(R, ow, preparedFiles, chunks, i, successedFiles). chunks - i)") auto

declare upload_chunks.simps [simp del]

text \<open>
  \<^verbatim>\<open>if (filesToCopy)\<close>: \<^verbatim>\<open>getFilesToCopy\<close> always returns an array, and in JavaScript
  every object is truthy, the empty array too.
\<close>

definition js_truthy :: "jsstring list \<Rightarrow> bool" where
  "js_truthy filesToCopy = True"

text \<open>
  Lines 230 to 299. The last component is the error thrown or set, if any; an error
  thrown by \<^verbatim>\<open>getFilesToCopy\<close> is one of them.
\<close>

definition copy_files ::
  "lib \<Rightarrow> filesystem \<Rightarrow> remote \<Rightarrow> inputs \<Rightarrow> jsstring
     \<Rightarrow> event list \<times> settled list list \<times> message option" where
  "copy_files L F R I target =
     (case getFilesToCopy L F (sourceFolder I) (contents I) of
        Inl e \<Rightarrow> ([], [], Some (Uncaught e))
      | Inr filesToCopy \<Rightarrow>
          if js_truthy filesToCopy then
            (let preparedFiles =
                   prepareFiles L filesToCopy (sourceFolder I) target (flattenFolders I);
                 folderStructure = getUniqueFolders L (sort (map snd preparedFiles))
             in case create_folders R folderStructure of
                  (ev1, Some err) \<Rightarrow>
                    (Log (CopyingFiles (length preparedFiles)) # ev1, [], Some err)
                | (ev1, None) \<Rightarrow>
                    (case upload_chunks R (overwrite I) preparedFiles
                            (chunks_of (length preparedFiles)) 0 0 of
                       (ev2, batches, r) \<Rightarrow>
                         (Log (CopyingFiles (length preparedFiles)) # ev1 @
                            Log (FoldersCreated (length folderStructure)) # ev2,
                          batches,
                          case r of Inl m \<Rightarrow> Some m | Inr n \<Rightarrow> None)))
          else if failOnEmptySource I then ([], [], Some NothingToCopy)
          else ([Warning NothingToCopy], [], None))"

text \<open>
  Lines 204 to 300: the part of the \<^verbatim>\<open>try\<close> block that follows
  \<^verbatim>\<open>sshHelper = new SshHelper(sshConfig)\<close>.
\<close>

definition session ::
  "lib \<Rightarrow> filesystem \<Rightarrow> remote \<Rightarrow> inputs \<Rightarrow> jsstring
     \<Rightarrow> event list \<times> settled list list \<times> message option" where
  "session L F R I target =
     (case setupConnection R of
        Some e \<Rightarrow> ([SetupConnection], [], Some (Thrown e))
      | None \<Rightarrow>
          (case clean_target L R I target of
             (ev, Some m) \<Rightarrow> (SetupConnection # ev, [], Some m)
           | (ev, None) \<Rightarrow>
               if contents I = [js ''**''] then
                 (case uploadFolder R (sourceFolder I) target of
                    Inl err \<Rightarrow>
                      (SetupConnection # ev @ [UploadFolder (sourceFolder I) target], [],
                       Some (CopyDirectoryFailed (sourceFolder I) err))
                  | Inr completedDirectory \<Rightarrow>
                      (SetupConnection # ev @
                         [UploadFolder (sourceFolder I) target,
                          Log (CopyDirectoryCompleted completedDirectory)],
                       [], None))
               else (case copy_files L F R I target of
                       (ev2, batches, r) \<Rightarrow> (SetupConnection # ev @ ev2, batches, r))))"

text \<open>
  The run, from line 200 on: the \<^verbatim>\<open>try\<close> block, the \<^verbatim>\<open>catch\<close> that turns a thrown
  error into the verdict, and the \<^verbatim>\<open>finally\<close> that closes the connection when
  \<^verbatim>\<open>sshHelper\<close> is set.
\<close>

record outcome =
  events :: "event list"
  batches :: "settled list list"
  result :: verdict
  sshHelper :: bool

definition run :: "lib \<Rightarrow> filesystem \<Rightarrow> remote \<Rightarrow> inputs \<Rightarrow> outcome" where
  "run L F R I =
     (let target = resolve_targetFolder (targetFolder I)
      in if \<not> tl_isDirectory F (sourceFolder I)
         then \<lparr> events = [], batches = [], result = Failed SourceNotFolder, sshHelper = False \<rparr>
         else (case session L F R I target of
                 (ev, bs, thrown) \<Rightarrow>
                   \<lparr> events = ev @ [Close], batches = bs,
                     result = (case thrown of Some m \<Rightarrow> Failed m | None \<Rightarrow> Succeeded),
                     sshHelper = True \<rparr>))"

subsection \<open>Names for the phases of a run\<close>

text \<open>
  The files a run selects, the mapped pairs and the folders it plans (lines 231, 235 and
  243): none when the selection throws.
\<close>

definition selected_files :: "lib \<Rightarrow> filesystem \<Rightarrow> inputs \<Rightarrow> jsstring list" where
  "selected_files L F I =
     (case getFilesToCopy L F (sourceFolder I) (contents I) of
        Inl e \<Rightarrow> []
      | Inr filesToCopy \<Rightarrow> filesToCopy)"

definition planned_files :: "lib \<Rightarrow> filesystem \<Rightarrow> inputs \<Rightarrow> (jsstring \<times> jsstring) list" where
  "planned_files L F I =
     prepareFiles L (selected_files L F I) (sourceFolder I)
       (resolve_targetFolder (targetFolder I)) (flattenFolders I)"

definition planned_folders :: "lib \<Rightarrow> filesystem \<Rightarrow> inputs \<Rightarrow> jsstring list" where
  "planned_folders L F I = getUniqueFolders L (sort (map snd (planned_files L F I)))"

text \<open>
  The run gets as far as the selection of files: the source is a folder, the connection
  is set up, the cleaning of the target (if asked for) succeeds, and the pattern list is
  not the single pattern \<^verbatim>\<open>**\<close>.
\<close>

definition reaches_copy :: "lib \<Rightarrow> filesystem \<Rightarrow> remote \<Rightarrow> inputs \<Rightarrow> bool" where
  "reaches_copy L F R I =
     (tl_isDirectory F (sourceFolder I) \<and> setupConnection R = None
      \<and> snd (clean_target L R I (resolve_targetFolder (targetFolder I))) = None
      \<and> contents I \<noteq> [js ''**''])"

text \<open>
  The run gets as far as the upload: the selection returns and every planned folder is
  created.
\<close>

definition reaches_upload :: "lib \<Rightarrow> filesystem \<Rightarrow> remote \<Rightarrow> inputs \<Rightarrow> bool" where
  "reaches_upload L F R I =
     (reaches_copy L F R I
      \<and> \<not> isl (getFilesToCopy L F (sourceFolder I) (contents I))
      \<and> list_all (\<lambda>d. createRemoteDirectory R d = None) (planned_folders L F I))"

text \<open>The calls of a run before its first batch, when every folder is created.\<close>

definition folder_events :: "jsstring list \<Rightarrow> event list" where
  "folder_events ds = concat (map (\<lambda>d. [CreateDir d, Log (FolderCreated d)]) ds)"

definition before_upload :: "lib \<Rightarrow> filesystem \<Rightarrow> remote \<Rightarrow> inputs \<Rightarrow> event list" where
  "before_upload L F R I =
     SetupConnection # fst (clean_target L R I (resolve_targetFolder (targetFolder I))) @
     Log (CopyingFiles (length (planned_files L F I))) #
     folder_events (planned_folders L F I) @
     [Log (FoldersCreated (length (planned_folders L F I)))]"

text \<open>The calls and the settled results of the batch of index \<open>j\<close>, and whether it fails.\<close>

definition batch_events :: "remote \<Rightarrow> bool \<Rightarrow> (jsstring \<times> jsstring) list \<Rightarrow> nat \<Rightarrow> event list" where
  "batch_events R ow preparedFiles j =
     concat (map fst (run_batch R ow (chunk_at preparedFiles j)))"

definition batch_results :: "remote \<Rightarrow> bool \<Rightarrow> (jsstring \<times> jsstring) list \<Rightarrow> nat \<Rightarrow> settled list" where
  "batch_results R ow preparedFiles j = map snd (run_batch R ow (chunk_at preparedFiles j))"

definition batch_fails :: "remote \<Rightarrow> bool \<Rightarrow> (jsstring \<times> jsstring) list \<Rightarrow> nat \<Rightarrow> bool" where
  "batch_fails R ow preparedFiles j =
     (filter is_rejected (batch_results R ow preparedFiles j) \<noteq> [])"

text \<open>
  The calls and lines a session can produce: everything but the closing of the
  connection, which belongs to the \<^verbatim>\<open>finally\<close> block, and a warning.
\<close>

fun session_event :: "event \<Rightarrow> bool" where
  "session_event Close = False"
| "session_event (Warning m) = False"
| "session_event e = True"

subsection \<open>A concrete environment for the evaluations\<close>

text \<open>
  Node's \<^verbatim>\<open>path\<close> module on a POSIX agent. \<^verbatim>\<open>path.dirname\<close> scans the path from
  its end down to index 1 for the first separator that follows a character other than
  a separator.
\<close>

fun dirname_scan :: "jsstring \<Rightarrow> nat \<Rightarrow> bool \<Rightarrow> nat option" where
  "dirname_scan path 0 matchedSlash = None"
| "dirname_scan path (Suc i) matchedSlash =
     (if path ! Suc i = code_unit CHR ''/''
      then (if \<not> matchedSlash then Some (Suc i) else dirname_scan path i matchedSlash)
      else dirname_scan path i False)"

definition node_dirname :: "jsstring \<Rightarrow> jsstring" where
  "node_dirname path =
     (if path = [] then js ''.''
      else let hasRoot = (hd path = code_unit CHR ''/'')
           in case dirname_scan path (length path - 1) True of
                None \<Rightarrow> if hasRoot then js ''/'' else js ''.''
              | Some e \<Rightarrow> if hasRoot \<and> e = 1 then js ''//'' else take e path)"

text \<open>\<^verbatim>\<open>path.basename\<close>: the last segment, trailing separators ignored.\<close>

definition node_basename :: "jsstring \<Rightarrow> jsstring" where
  "node_basename path =
     rev (takeWhile (\<lambda>c. c \<noteq> code_unit CHR ''/'') (dropWhile (\<lambda>c. c = code_unit CHR ''/'') (rev path)))"

text \<open>
  \<^verbatim>\<open>path.join(a, b)\<close>: the non-empty arguments joined by a separator, then normalised:
  empty and \<^verbatim>\<open>.\<close> segments go, \<^verbatim>\<open>..\<close> removes the segment before it (above the top
  of a relative path it stays, above the root it goes), a trailing separator stays.
\<close>

fun split_slash :: "jsstring \<Rightarrow> jsstring \<Rightarrow> jsstring list" where
  "split_slash cur [] = [rev cur]"
| "split_slash cur (c # cs) =
     (if c = code_unit CHR ''/'' then rev cur # split_slash [] cs else split_slash (c # cur) cs)"

fun normalize_segments :: "bool \<Rightarrow> jsstring list \<Rightarrow> jsstring list \<Rightarrow> jsstring list" where
  "normalize_segments allowAboveRoot res [] = res"
| "normalize_segments allowAboveRoot res (seg # segs) =
     (if seg = [] \<or> seg = js ''.'' then normalize_segments allowAboveRoot res segs
      else if seg = js ''..'' then
        (if res \<noteq> [] \<and> last res \<noteq> (js ''..'')
         then normalize_segments allowAboveRoot (butlast res) segs
         else if allowAboveRoot then normalize_segments allowAboveRoot (res @ [seg]) segs
         else normalize_segments allowAboveRoot res segs)
      else normalize_segments allowAboveRoot (res @ [seg]) segs)"

fun join_slash :: "jsstring list \<Rightarrow> jsstring" where
  "join_slash [] = []"
| "join_slash [s] = s"
| "join_slash (s # t # ss) = s @ (js ''/'') @ join_slash (t # ss)"

definition node_normalize :: "jsstring \<Rightarrow> jsstring" where
  "node_normalize path =
     (if path = [] then js ''.''
      else let isAbs = (hd path = code_unit CHR ''/'');
               trailingSeparator = (last path = code_unit CHR ''/'');
               p = join_slash (normalize_segments (\<not> isAbs) [] (split_slash [] path))
           in if p = [] then (if isAbs then js ''/'' else if trailingSeparator then js ''./'' else js ''.'')
              else (if isAbs then js ''/'' else []) @ p @ (if trailingSeparator then js ''/'' else []))"

definition node_join :: "jsstring \<Rightarrow> jsstring \<Rightarrow> jsstring" where
  "node_join a b =
     (if a = [] \<and> b = [] then js ''.''
      else if a = [] then node_normalize b
      else if b = [] then node_normalize a
      else node_normalize (a @ (js ''/'') @ b))"

text \<open>
  Modelled from the spec: \<^verbatim>\<open>utils.pathIsUNC\<close> and \<^verbatim>\<open>utils.unixyPath\<close> are not in the
  source file. A UNC-style path is of the form of two backslashes, server, share; the
  normalised remote path has all backslashes converted to forward slashes.
\<close>

definition spec_pathIsUNC :: "jsstring \<Rightarrow> bool" where
  "spec_pathIsUNC p = (take 2 p = [code_unit (CHR 0x5C), code_unit (CHR 0x5C)])"

definition spec_unixyPath :: "jsstring \<Rightarrow> jsstring" where
  "spec_unixyPath p = map (\<lambda>c. if c = code_unit (CHR 0x5C) then code_unit CHR ''/'' else c) p"

text \<open>
  A fragment of the matching library: the pattern \<^verbatim>\<open>**\<close> alone accepts every file,
  and a pattern without glob characters accepts the path equal to it. The evaluations
  below use no other pattern.
\<close>

definition literal_glob :: "jsstring \<Rightarrow> jsstring \<Rightarrow> bool" where
  "literal_glob p f = (p = js ''**'' \<or> p = f)"

text \<open>
  The environment of a POSIX agent. No evaluation below cleans the target folder, so the
  text of the cleaning command plays no part.
\<close>

definition posix_lib :: lib where
  "posix_lib =
     \<lparr> path_join = node_join, path_dirname = node_dirname,
       posix_dirname = node_dirname, path_basename = node_basename,
       posix_join = node_join, isAbsolute = (\<lambda>p. p \<noteq> [] \<and> hd p = code_unit CHR ''/''),
       pathIsUNC = spec_pathIsUNC, unixyPath = spec_unixyPath,
       getCleanTargetFolderCmd = (\<lambda>t w h. (js ''clean '') @ t),
       glob = literal_glob \<rparr>"

text \<open>A source tree: two files in \<^verbatim>\<open>/src\<close>, one in \<^verbatim>\<open>/src/sub\<close>.\<close>

definition small_tree :: filesystem where
  "small_tree =
     \<lparr> tl_find = (\<lambda>d. [js ''/src'', js ''/src/a.txt'', js ''/src/b.log'', js ''/src/sub'',
                       js ''/src/sub/c.log'']),
       tl_isDirectory = (\<lambda>p. p = js ''/src'' \<or> p = js ''/src/sub'') \<rparr>"

text \<open>
  The current folder as source tree, with a file whose name begins with \<^verbatim>\<open>!\<close>; and
  the current folder with files named \<^verbatim>\<open>__proto__\<close> and \<^verbatim>\<open>hasOwnProperty\<close>.
\<close>

definition bang_tree :: filesystem where
  "bang_tree =
     \<lparr> tl_find = (\<lambda>d. [js ''.'', js ''!z'', js ''y'', js ''z'']),
       tl_isDirectory = (\<lambda>p. p = js ''.'') \<rparr>"

definition proto_tree :: filesystem where
  "proto_tree =
     \<lparr> tl_find = (\<lambda>d. [js ''.'', js ''__proto__'', js ''hasOwnProperty'', js ''q'']),
       tl_isDirectory = (\<lambda>p. p = js ''.'') \<rparr>"

text \<open>A source tree of twenty-five files directly under \<^verbatim>\<open>/src\<close>.\<close>

definition big_tree :: filesystem where
  "big_tree =
     \<lparr> tl_find = (\<lambda>d. js ''/src'' #
                         map (\<lambda>n. js ''/src/'' @ replicate n (code_unit CHR ''a'')) [1..<26]),
       tl_isDirectory = (\<lambda>p. p = js ''/src'') \<rparr>"

text \<open>A remote side on which nothing exists yet and every call succeeds.\<close>

definition quiet_remote :: remote where
  "quiet_remote =
     \<lparr> setupConnection = None, checkRemotePathExists = (\<lambda>p. Inr False),
       runCommandOnRemoteMachine = (\<lambda>c. None), uploadFolder = (\<lambda>s t. Inr t),
       createRemoteDirectory = (\<lambda>p. None), uploadFile = (\<lambda>l t. None) \<rparr>"

definition plain_inputs :: "jsstring list \<Rightarrow> inputs" where
  "plain_inputs cs =
     \<lparr> contents = cs, sourceFolder = (js ''/src''), targetFolder = Some (js ''dest''),
       cleanTargetFolder = False, overwrite = False, failOnEmptySource = False,
       flattenFolders = False, isWindowsOnTarget = False,
       cleanHiddenFilesInTarget = False \<rparr>"

text \<open>Remote sides that refuse one folder, or hold one file already.\<close>

definition denying_remote :: "jsstring \<Rightarrow> remote" where
  "denying_remote d =
     quiet_remote \<lparr> createRemoteDirectory := (\<lambda>p. if p = d then Some (js ''denied'') else None) \<rparr>"

definition holding_remote :: "jsstring \<Rightarrow> remote" where
  "holding_remote t = quiet_remote \<lparr> checkRemotePathExists := (\<lambda>p. Inr (p = t)) \<rparr>"

section \<open>Properties of the selection\<close>

lemma scan_negations_eq:
  "scan_negations p (b, n) =
     ((b \<noteq> odd (leading_negations p)), n + leading_negations p)"
  by (induction p arbitrary: b n) (auto simp: leading_negations_def)

lemma classify_pattern_even:
  "even (leading_negations p) \<Longrightarrow>
   classify_pattern L src p (inc, exc) = (inc @ [path_join L src p], exc)"
  by (simp add: classify_pattern_def scan_negations_eq)

lemma classify_pattern_odd:
  "odd (leading_negations p) \<Longrightarrow>
   classify_pattern L src p (inc, exc) =
     (inc, exc @ [take (leading_negations p) p @ path_join L src (drop (leading_negations p) p)])"
  by (simp add: classify_pattern_def scan_negations_eq)

lemma fold_classify_even:
  "\<forall>p \<in> set ps. even (leading_negations p) \<Longrightarrow>
   fold (classify_pattern L src) ps (inc, exc) = (inc @ map (path_join L src) ps, exc)"
  by (induction ps arbitrary: inc) (simp_all add: classify_pattern_even)

lemma fold_classify_odd:
  "\<forall>p \<in> set ps. odd (leading_negations p) \<Longrightarrow>
   fold (classify_pattern L src) ps (inc, exc) =
     (inc, exc @ map (\<lambda>p. take (leading_negations p) p @
                            path_join L src (drop (leading_negations p) p)) ps)"
  by (induction ps arbitrary: exc) (simp_all add: classify_pattern_odd)

lemma dedup_first_seen_snoc:
  "dedup_first_seen (xs @ [x]) =
     (if x \<in> set xs then dedup_first_seen xs else dedup_first_seen xs @ [x])"
  by (simp add: dedup_first_seen_def)

lemma set_dedup_first_seen: "set (dedup_first_seen xs) = set xs"
  by (simp add: dedup_first_seen_def)

lemma distinct_dedup_first_seen: "distinct (dedup_first_seen xs)"
  by (simp add: dedup_first_seen_def)

lemma dedup_first_seen_Cons:
  "dedup_first_seen (x # xs) = x # dedup_first_seen (filter (\<lambda>y. y \<noteq> x) xs)"
proof -
  have "remdups (ys @ [x]) = remdups (filter (\<lambda>y. y \<noteq> x) ys) @ [x]" for ys
    by (induction ys) auto
  then have "remdups (rev xs @ [x]) = remdups (filter (\<lambda>y. y \<noteq> x) (rev xs)) @ [x]" .
  then show ?thesis by (simp add: dedup_first_seen_def rev_filter)
qed

lemma add_matches_dedup:
  assumes "dom seen = set acc" and "\<forall>m \<in> set (acc @ ms). ordinary_key m"
  shows "\<exists>seen'. add_matches ms (seen, dedup_first_seen acc) =
                   Inr (seen', dedup_first_seen (acc @ ms))
               \<and> dom seen' = set (acc @ ms)"
  using assms
proof (induction ms arbitrary: seen acc)
  case Nil
  then show ?case by simp
next
  case (Cons m ms)
  have "js ''hasOwnProperty'' \<notin> set acc"
    using Cons.prems(2) by (auto simp: ordinary_key_def)
  then have h: "seen (js ''hasOwnProperty'') = None"
    using Cons.prems(1) by auto
  have o: "m \<noteq> js ''__proto__''"
    using Cons.prems(2) by (auto simp: ordinary_key_def)
  have rest: "\<forall>x \<in> set ((acc @ [m]) @ ms). ordinary_key x"
    using Cons.prems(2) by auto
  show ?case
  proof (cases "seen m = None")
    case True
    then have notin: "m \<notin> set acc" using Cons.prems(1) by auto
    have d: "dom (seen(m \<mapsto> True)) = set (acc @ [m])" using Cons.prems(1) by auto
    have step: "add_matches (m # ms) (seen, dedup_first_seen acc) =
        add_matches ms (seen(m \<mapsto> True), dedup_first_seen (acc @ [m]))"
      using True notin h o
      by (simp add: dedup_first_seen_snoc hasOwnProperty_def set_property_def)
    from Cons.IH [OF d rest] show ?thesis
      unfolding step by (simp only: append_assoc append_Cons append_Nil)
  next
    case False
    then have isin: "m \<in> set acc" using Cons.prems(1) by auto
    have d: "dom seen = set (acc @ [m])" using Cons.prems(1) isin by auto
    have step: "add_matches (m # ms) (seen, dedup_first_seen acc) =
        add_matches ms (seen, dedup_first_seen (acc @ [m]))"
      using False isin h
      by (auto simp add: dedup_first_seen_snoc hasOwnProperty_def)
    from Cons.IH [OF d rest] show ?thesis
      unfolding step by (simp only: append_assoc append_Cons append_Nil)
  qed
qed

lemma include_loop_dedup:
  assumes "dom seen = set acc"
    and "\<forall>m \<in> set (acc @ concat (map (minimatch_match g allFiles) ps)). ordinary_key m"
  shows "\<exists>seen'. include_loop g allFiles ps (seen, dedup_first_seen acc) =
           Inr (seen', dedup_first_seen (acc @ concat (map (minimatch_match g allFiles) ps)))"
  using assms
proof (induction ps arbitrary: seen acc)
  case Nil
  then show ?case by simp
next
  case (Cons p ps)
  have o: "\<forall>m \<in> set (acc @ minimatch_match g allFiles p). ordinary_key m"
    using Cons.prems(2) by auto
  from add_matches_dedup [OF Cons.prems(1) o] obtain seen' where
    step: "add_matches (minimatch_match g allFiles p) (seen, dedup_first_seen acc) =
             Inr (seen', dedup_first_seen (acc @ minimatch_match g allFiles p))"
    and d: "dom seen' = set (acc @ minimatch_match g allFiles p)" by blast
  have rest: "\<forall>m \<in> set ((acc @ minimatch_match g allFiles p) @
                 concat (map (minimatch_match g allFiles) ps)). ordinary_key m"
    using Cons.prems(2) by auto
  from Cons.IH [OF d rest] step show ?case by simp
qed

lemma apply_includes_eq:
  assumes "\<forall>f \<in> set allFiles. ordinary_key f"
  shows "apply_includes g allFiles incs =
     Inr (dedup_first_seen (concat (map (minimatch_match g allFiles) incs)))"
proof -
  have "\<forall>m \<in> set ([] @ concat (map (minimatch_match g allFiles) incs)). ordinary_key m"
    using assms by (auto simp: minimatch_match_def)
  from include_loop_dedup [of Map.empty "[]", OF _ this]
  show ?thesis by (auto simp: apply_includes_def dedup_first_seen_def)
qed

lemma apply_excludes_eq:
  "apply_excludes g excs files = filter (\<lambda>f. \<forall>e \<in> set excs. minimatch g e f) files"
  unfolding apply_excludes_def
proof (induction excs arbitrary: files)
  case Nil
  then show ?case by simp
next
  case (Cons e excs)
  then show ?case by (auto simp: minimatch_match_def intro: filter_cong)
qed

lemma leading_negations_reanchored:
  assumes "leading_negations b = 0"
  shows "leading_negations (take (leading_negations p) p @ b) = leading_negations p"
    and "drop (leading_negations p) (take (leading_negations p) p @ b) = b"
proof -
  let ?P = "\<lambda>c. c = code_unit CHR ''!''"
  have t: "take (leading_negations p) p = takeWhile ?P p"
    unfolding leading_negations_def by (rule takeWhile_eq_take [symmetric])
  have b: "takeWhile ?P b = []"
    using assms by (simp add: leading_negations_def)
  have "takeWhile ?P (takeWhile ?P p @ b) = takeWhile ?P p @ takeWhile ?P b"
    by (rule takeWhile_append2) (auto dest: set_takeWhileD)
  then show "leading_negations (take (leading_negations p) p @ b) = leading_negations p"
    using t b by (simp add: leading_negations_def)
  show "drop (leading_negations p) (take (leading_negations p) p @ b) = b"
    using t by (simp add: leading_negations_def)
qed

lemma minimatch_exclude:
  assumes "odd (leading_negations p)" and "leading_negations b = 0"
  shows "minimatch g (take (leading_negations p) p @ b) f = (\<not> g b f)"
  using assms leading_negations_reanchored [OF assms(2), of p]
  by (simp add: minimatch_def Let_def)

lemma getFilesToCopy_includes_only:
  assumes "\<forall>p \<in> set patterns. even (leading_negations (js_trim p))"
  shows "getFilesToCopy L F src patterns =
     apply_includes (glob L) (filter (\<lambda>p. \<not> tl_isDirectory F p) (tl_find F src))
       (map (\<lambda>p. path_join L src (js_trim p)) patterns)"
proof -
  have "classify L src patterns = (map (path_join L src) (map js_trim patterns), [])"
    using assms fold_classify_even [of "map js_trim patterns" L src "[]" "[]"]
    by (simp add: classify_def)
  then show ?thesis
    by (simp add: getFilesToCopy_def Let_def apply_excludes_def comp_def split: sum.splits)
qed

lemma getFilesToCopy_excludes_only:
  assumes "patterns \<noteq> []"
    and "\<forall>p \<in> set patterns. odd (leading_negations (js_trim p))"
  shows "classify L src patterns =
           ([], map (\<lambda>p. take (leading_negations (js_trim p)) (js_trim p) @ exclude_glob L src p)
                  patterns)"
    and "getFilesToCopy L F src patterns =
           (case apply_includes (glob L)
                   (filter (\<lambda>p. \<not> tl_isDirectory F p) (tl_find F src)) [js ''**''] of
              Inl e \<Rightarrow> Inl e
            | Inr files \<Rightarrow>
                Inr (apply_excludes (glob L)
                       (map (\<lambda>p. take (leading_negations (js_trim p)) (js_trim p) @
                                  exclude_glob L src p) patterns)
                       files))"
proof -
  show c: "classify L src patterns =
           ([], map (\<lambda>p. take (leading_negations (js_trim p)) (js_trim p) @ exclude_glob L src p)
                  patterns)"
    using assms(2) fold_classify_odd [of "map js_trim patterns" L src "[]" "[]"]
    by (simp add: classify_def exclude_glob_def comp_def)
  show "getFilesToCopy L F src patterns =
           (case apply_includes (glob L)
                   (filter (\<lambda>p. \<not> tl_isDirectory F p) (tl_find F src)) [js ''**''] of
              Inl e \<Rightarrow> Inl e
            | Inr files \<Rightarrow>
                Inr (apply_excludes (glob L)
                       (map (\<lambda>p. take (leading_negations (js_trim p)) (js_trim p) @
                                  exclude_glob L src p) patterns)
                       files))"
    using assms(1) by (simp add: getFilesToCopy_def c Let_def)
qed

lemma fold_filter_conj:
  "fold (\<lambda>p files. filter (Q p) files) ps files = filter (\<lambda>f. \<forall>p \<in> set ps. Q p f) files"
proof (induction ps arbitrary: files)
  case Nil
  show ?case by simp
next
  case (Cons p ps)
  show ?case by (auto simp: Cons.IH intro: filter_cong)
qed

text \<open>
  Where no listed file is named \<^verbatim>\<open>__proto__\<close> or \<^verbatim>\<open>hasOwnProperty\<close>, a list of
  include patterns selects the concatenation of the match lists of the patterns, every
  path kept at its first occurrence only, and the selection has no duplicate.
\<close>

lemma ordinary_paths_includes_only:
  assumes "\<forall>p \<in> set patterns. even (leading_negations (js_trim p))"
    and "\<forall>f \<in> set (tl_find F src). \<not> tl_isDirectory F f \<longrightarrow> ordinary_key f"
  shows "getFilesToCopy L F src patterns =
           Inr (dedup_first_seen
             (concat (map (\<lambda>p. minimatch_match (glob L)
                                  (filter (\<lambda>p. \<not> tl_isDirectory F p) (tl_find F src))
                                  (path_join L src (js_trim p)))
                        patterns)))"
proof -
  have o: "\<forall>f \<in> set (filter (\<lambda>p. \<not> tl_isDirectory F p) (tl_find F src)). ordinary_key f"
    using assms(2) by simp
  show ?thesis
    by (simp add: getFilesToCopy_includes_only [OF assms(1)] apply_includes_eq [OF o] comp_def)
qed

text \<open>The trimming of a pattern reaches beyond the ASCII white space.\<close>

lemma js_trim_unicode_space:
  "js_trim ([0xA0, 0xFEFF, 0x2003] @ js ''!a b '' @ [0x2028, 0x3000, 0x09]) = js ''!a b''"
  by code_simp

text \<open>
  C8, evaluated: the source folder \<^verbatim>\<open>.\<close> holds a file named \<^verbatim>\<open>__proto__\<close>. Two
  include patterns match it, no pattern is an exclude pattern, and the selection holds
  the path twice: \<^verbatim>\<open>pathsSeen\<close> never records this key. With a file named
  \<^verbatim>\<open>hasOwnProperty\<close> selected first, the test for the next match throws, and there
  is no selection at all.
\<close>

theorem proto_path_selected_twice:
  "getFilesToCopy posix_lib proto_tree (js ''.'') [js ''__proto__'', js ''__proto__'', js ''q''] =
     Inr [js ''__proto__'', js ''__proto__'', js ''q'']
   \<and> \<not> distinct [js ''__proto__'', js ''__proto__'', js ''q'']
   \<and> dedup_first_seen
         (concat (map (\<lambda>p. minimatch_match (glob posix_lib)
                              (filter (\<lambda>p. \<not> tl_isDirectory proto_tree p)
                                 (tl_find proto_tree (js ''.'')))
                              (path_join posix_lib (js ''.'') (js_trim p)))
                    [js ''__proto__'', js ''__proto__'', js ''q''])) =
       [js ''__proto__'', js ''q'']
   \<and> getFilesToCopy posix_lib proto_tree (js ''.'') [js ''hasOwnProperty'', js ''q''] =
       Inl TypeError"
  by code_simp

text \<open>The error thrown by the selection ends the run as a failure.\<close>

lemma type_error_fails_run:
  "result (run posix_lib proto_tree quiet_remote
             ((plain_inputs [js ''hasOwnProperty'', js ''q'']) \<lparr> sourceFolder := js ''.'' \<rparr>)) =
     Failed (Uncaught TypeError)
   \<and> events (run posix_lib proto_tree quiet_remote
             ((plain_inputs [js ''hasOwnProperty'', js ''q'']) \<lparr> sourceFolder := js ''.'' \<rparr>)) =
     [SetupConnection, Close]"
  by code_simp

text \<open>
  Where no listed file is named \<^verbatim>\<open>__proto__\<close> or \<^verbatim>\<open>hasOwnProperty\<close>, the matching
  library accepts every file for \<^verbatim>\<open>**\<close>, and the anchored globs do not themselves
  begin with \<^verbatim>\<open>!\<close>, a non-empty list of exclude patterns selects the file listing
  narrowed by the patterns one after the other, each applied to what the patterns
  before it left: the listing minus the union of the files the exclude globs match.
\<close>

lemma ordinary_paths_excludes_only:
  assumes "patterns \<noteq> []"
    and "\<forall>p \<in> set patterns. odd (leading_negations (js_trim p))"
    and "\<forall>f \<in> set (tl_find F src). \<not> tl_isDirectory F f \<longrightarrow> glob L (js ''**'') f"
    and "\<forall>p \<in> set patterns. leading_negations (exclude_glob L src p) = 0"
    and "\<forall>f \<in> set (tl_find F src). \<not> tl_isDirectory F f \<longrightarrow> ordinary_key f"
  shows "getFilesToCopy L F src patterns =
           Inr (foldl (\<lambda>files p. filter (\<lambda>f. \<not> glob L (exclude_glob L src p) f) files)
                  (dedup_first_seen (filter (\<lambda>p. \<not> tl_isDirectory F p) (tl_find F src)))
                  patterns)
         \<and> set (foldl (\<lambda>files p. filter (\<lambda>f. \<not> glob L (exclude_glob L src p) f) files)
                  (dedup_first_seen (filter (\<lambda>p. \<not> tl_isDirectory F p) (tl_find F src)))
                  patterns) =
             set (filter (\<lambda>p. \<not> tl_isDirectory F p) (tl_find F src))
               - (\<Union>p \<in> set patterns. {f. glob L (exclude_glob L src p) f})"
proof -
  let ?all = "filter (\<lambda>p. \<not> tl_isDirectory F p) (tl_find F src)"
  let ?h = "\<lambda>p. take (leading_negations (js_trim p)) (js_trim p) @ exclude_glob L src p"
  let ?Q = "\<lambda>p f. \<not> glob L (exclude_glob L src p) f"
  note eo =
    getFilesToCopy_excludes_only(1) [OF assms(1,2), where L = L and src = src]
    getFilesToCopy_excludes_only(2) [OF assms(1,2), where L = L and src = src and F = F]
  have o: "\<forall>f \<in> set ?all. ordinary_key f" using assms(5) by simp
  have "filter (minimatch (glob L) (js ''**'')) ?all = ?all"
    using assms(3)
    by (auto simp: minimatch_def leading_negations_def js_def code_unit_def intro: filter_cong)
  then have inc: "apply_includes (glob L) ?all [js ''**''] = Inr (dedup_first_seen ?all)"
    by (simp add: apply_includes_eq [OF o] minimatch_match_def)
  have mm: "minimatch (glob L) (?h p) = ?Q p" if "p \<in> set patterns" for p
    using that assms(2,4) by (auto simp: minimatch_exclude)
  have exc: "apply_excludes (glob L) (map ?h patterns) files =
               fold (\<lambda>p files. filter (?Q p) files) patterns files" for files
    unfolding apply_excludes_def minimatch_match_def fold_map comp_def
    by (rule fold_cong) (simp_all add: mm)
  have r: "getFilesToCopy L F src patterns =
             Inr (fold (\<lambda>p files. filter (?Q p) files) patterns (dedup_first_seen ?all))"
    by (simp add: eo(2) inc exc)
  have a: "getFilesToCopy L F src patterns =
             Inr (foldl (\<lambda>files p. filter (?Q p) files) (dedup_first_seen ?all) patterns)"
    by (simp add: r foldl_conv_fold)
  have b: "set (foldl (\<lambda>files p. filter (?Q p) files) (dedup_first_seen ?all) patterns) =
             set ?all - (\<Union>p \<in> set patterns. {f. glob L (exclude_glob L src p) f})"
    unfolding foldl_conv_fold fold_filter_conj by (auto simp: set_dedup_first_seen)
  from a b show ?thesis by blast
qed

text \<open>
  C2, evaluated: the source folder \<^verbatim>\<open>.\<close> holds the files \<^verbatim>\<open>!z\<close>, \<^verbatim>\<open>y\<close> and
  \<^verbatim>\<open>z\<close>, and the one pattern \<^verbatim>\<open>!./!z\<close> excludes the first of them. Joined to the
  source folder its glob is \<^verbatim>\<open>!z\<close>, line 32 puts the negation back in front of it,
  and the matching library reads \<^verbatim>\<open>!!z\<close> as a double negation of \<^verbatim>\<open>z\<close>: the
  selection is the file \<^verbatim>\<open>z\<close> alone, where the listing without the matches of the
  exclude glob is \<^verbatim>\<open>y\<close> and \<^verbatim>\<open>z\<close>.
\<close>

theorem exclude_glob_beginning_with_negation:
  "classify posix_lib (js ''.'') [js ''!./!z''] = ([], [js ''!!z''])
   \<and> exclude_glob posix_lib (js ''.'') (js ''!./!z'') = js ''!z''
   \<and> getFilesToCopy posix_lib bang_tree (js ''.'') [js ''!./!z''] = Inr [js ''z'']
   \<and> foldl (\<lambda>files p. filter (\<lambda>f. \<not> glob posix_lib (exclude_glob posix_lib (js ''.'') p) f) files)
         (dedup_first_seen (filter (\<lambda>p. \<not> tl_isDirectory bang_tree p)
                              (tl_find bang_tree (js ''.''))))
         [js ''!./!z''] =
       [js ''y'', js ''z'']"
  by code_simp

text \<open>
  C4, evaluated: the pattern \<^verbatim>\<open>!!a.txt\<close> is classified as an include pattern, and
  the pattern handed to the matching library is the source folder joined with the whole
  pattern, the two \<^verbatim>\<open>!\<close> included. The file \<^verbatim>\<open>/src/a.txt\<close>, which the pattern
  \<^verbatim>\<open>a.txt\<close> selects, is not selected.
\<close>

theorem double_negation_stays_in_include_pattern:
  "classify posix_lib (js ''/src'') [js ''!!a.txt''] = ([js ''/src/!!a.txt''], [])
   \<and> getFilesToCopy posix_lib small_tree (js ''/src'') [js ''!!a.txt''] = Inr []
   \<and> getFilesToCopy posix_lib small_tree (js ''/src'') [js ''a.txt''] = Inr [js ''/src/a.txt'']"
  by code_simp

section \<open>Properties of the directory plan\<close>

lemma collect_folders_dedup:
  "collect_folders L fs (dedup_first_seen acc) =
     dedup_first_seen (acc @ map (path_dirname L) fs)"
proof (induction fs arbitrary: acc)
  case Nil
  show ?case by simp
next
  case (Cons f fs)
  have "collect_folders L (f # fs) (dedup_first_seen acc) =
          collect_folders L fs (dedup_first_seen (acc @ [path_dirname L f]))"
    by (simp add: Let_def dedup_first_seen_snoc set_dedup_first_seen)
  then show ?case by (simp add: Cons.IH)
qed

text \<open>
  C3 as stated fails: for the sorted remote paths \<^verbatim>\<open>./dest/a.txt\<close> and
  \<^verbatim>\<open>./dest/sub/c.log\<close> both variants plan \<^verbatim>\<open>./dest\<close> and then \<^verbatim>\<open>./dest/sub\<close>,
  and the first is a path-prefix ancestor of the second.
\<close>

theorem directory_plan_keeps_ancestor:
  "getUniqueFolders posix_lib [js ''./dest/a.txt'', js ''./dest/sub/c.log''] =
     [js ''./dest'', js ''./dest/sub'']
   \<and> uniqueRemotePaths posix_lib
       [((js ''/src/a.txt''), (js ''./dest/a.txt'')), ((js ''/src/sub/c.log''), (js ''./dest/sub/c.log''))] =
     [js ''./dest'', js ''./dest/sub'']
   \<and> path_ancestor (js ''./dest'') (js ''./dest/sub'')"
  by code_simp

text \<open>
  C3, amended: the directories to create are the parent directories of the remote
  paths, each once, in the order of their first occurrence: a directory is added only
  if it is not equal to a directory added before.
\<close>

theorem getUniqueFolders_first_occurrences:
  "getUniqueFolders L filesToCopy = dedup_first_seen (map (path_dirname L) filesToCopy)
   \<and> distinct (getUniqueFolders L filesToCopy)
   \<and> set (getUniqueFolders L filesToCopy) = path_dirname L ` set filesToCopy"
proof -
  have "getUniqueFolders L filesToCopy = dedup_first_seen (map (path_dirname L) filesToCopy)"
    using collect_folders_dedup [of L filesToCopy "[]"]
    by (simp add: getUniqueFolders_def dedup_first_seen_def)
  then show ?thesis
    by (simp add: distinct_dedup_first_seen set_dedup_first_seen)
qed

section \<open>Properties of the path mapping\<close>

text \<open>
  C10: the path-mapping stage returns one pair per selected file, in the order of its
  input, and the local side of the i-th pair is the i-th input path.
\<close>

theorem prepareFiles_keeps_local_paths:
  "map fst (prepareFiles L filesToCopy src target flatten) = filesToCopy
   \<and> length (prepareFiles L filesToCopy src target flatten) = length filesToCopy"
  by (simp add: prepareFiles_def prepareFile_def Let_def comp_def)

section \<open>Properties of the run\<close>


lemma create_folders_ok:
  "list_all (\<lambda>d. createRemoteDirectory R d = None) ds \<Longrightarrow>
   create_folders R ds = (folder_events ds, None)"
  by (induction ds) (simp_all add: folder_events_def)

lemma create_folders_fail:
  "list_all (\<lambda>d. createRemoteDirectory R d = None) pre \<Longrightarrow>
   createRemoteDirectory R d = Some err \<Longrightarrow>
   create_folders R (pre @ d # post) =
     (folder_events pre @ [CreateDir d], Some (TargetNotCreated d err))"
  by (induction pre) (simp_all add: folder_events_def)

lemma run_reaches_copy:
  assumes "reaches_copy L F R I"
  shows "run L F R I =
     (case copy_files L F R I (resolve_targetFolder (targetFolder I)) of
        (ev2, bs, r) \<Rightarrow>
          \<lparr> events = SetupConnection #
                fst (clean_target L R I (resolve_targetFolder (targetFolder I))) @ ev2 @ [Close],
            batches = bs,
            result = (case r of Some m \<Rightarrow> Failed m | None \<Rightarrow> Succeeded),
            sshHelper = True \<rparr>)"
  using assms
  by (cases "clean_target L R I (resolve_targetFolder (targetFolder I))")
     (auto simp: reaches_copy_def run_def session_def Let_def split: prod.splits option.splits)

lemma upload_chunks_step_ok:
  assumes "i < chunks" and "\<not> batch_fails R ow P i"
  shows "upload_chunks R ow P chunks i s =
     (case upload_chunks R ow P chunks (Suc i)
             (s + length (filter is_fulfilled (batch_results R ow P i))) of
        (ev, bs, r) \<Rightarrow> (batch_events R ow P i @ ev, batch_results R ow P i # bs, r))"
  using assms
  by (subst upload_chunks.simps)
     (simp add: batch_fails_def batch_results_def batch_events_def Let_def)

lemma upload_chunks_step_fail:
  assumes "i < chunks" and "batch_fails R ow P i"
  shows "upload_chunks R ow P chunks i s =
     (batch_events R ow P i @
        map (\<lambda>x. Error (reason x)) (filter is_rejected (batch_results R ow P i)),
      [batch_results R ow P i],
      Inl (NumberFailed (length (filter is_rejected (batch_results R ow P i)))))"
  using assms
  by (subst upload_chunks.simps)
     (simp add: batch_fails_def batch_results_def batch_events_def Let_def)

lemma upload_chunks_done:
  "\<not> i < chunks \<Longrightarrow>
   upload_chunks R ow P chunks i s = ([Log (CopyCompleted s)], [], Inr s)"
  by (subst upload_chunks.simps) simp


lemma fulfilled_all:
  assumes "\<not> batch_fails R ow P j"
  shows "length (filter is_fulfilled (batch_results R ow P j)) = length (chunk_at P j)"
proof -
  have "\<forall>r \<in> set (batch_results R ow P j). \<not> is_rejected r"
    using assms by (simp add: batch_fails_def filter_empty_conv)
  then have "\<forall>r \<in> set (batch_results R ow P j). is_fulfilled r"
    by (metis is_fulfilled.simps(1) is_rejected.elims(3))
  then have "filter is_fulfilled (batch_results R ow P j) = batch_results R ow P j"
    by (simp add: filter_id_conv)
  then show ?thesis by (simp add: batch_results_def run_batch_def)
qed

lemma upload_chunks_all_ok:
  assumes "\<forall>j. i \<le> j \<and> j < chunks \<longrightarrow> \<not> batch_fails R ow P j"
  shows "upload_chunks R ow P chunks i s =
     (concat (map (batch_events R ow P) [i..<chunks]) @
        [Log (CopyCompleted (s + sum_list (map (\<lambda>j. length (chunk_at P j)) [i..<chunks])))],
      map (batch_results R ow P) [i..<chunks],
      Inr (s + sum_list (map (\<lambda>j. length (chunk_at P j)) [i..<chunks])))"
  using assms
proof (induction "chunks - i" arbitrary: i s)
  case 0
  then have "\<not> i < chunks" by simp
  then show ?case by (simp add: upload_chunks_done)
next
  case (Suc n)
  then have lt: "i < chunks" by simp
  have ok: "\<not> batch_fails R ow P i" using Suc.prems lt by simp
  have n: "n = chunks - Suc i" using Suc.hyps(2) by simp
  have rest: "\<forall>j. Suc i \<le> j \<and> j < chunks \<longrightarrow> \<not> batch_fails R ow P j"
    using Suc.prems by simp
  show ?case
    by (simp add: upload_chunks_step_ok [OF lt ok] Suc.hyps(1) [OF n rest]
        fulfilled_all [OF ok] upt_conv_Cons [OF lt] add.assoc)
qed

lemma upload_chunks_first_fail:
  assumes "i \<le> k" and "k < chunks"
    and "\<forall>j. i \<le> j \<and> j < k \<longrightarrow> \<not> batch_fails R ow P j"
    and "batch_fails R ow P k"
  shows "upload_chunks R ow P chunks i s =
     (concat (map (batch_events R ow P) [i..<Suc k]) @
        map (\<lambda>x. Error (reason x)) (filter is_rejected (batch_results R ow P k)),
      map (batch_results R ow P) [i..<Suc k],
      Inl (NumberFailed (length (filter is_rejected (batch_results R ow P k)))))"
  using assms
proof (induction "k - i" arbitrary: i s)
  case 0
  then have "i = k" by simp
  then show ?case using 0 by (simp add: upload_chunks_step_fail)
next
  case (Suc n)
  then have lt: "i < k" by simp
  then have ltc: "i < chunks" using Suc.prems by simp
  have ok: "\<not> batch_fails R ow P i" using Suc.prems lt by simp
  have n: "n = k - Suc i" using Suc.hyps(2) by simp
  have le: "Suc i \<le> k" using lt by simp
  have rest: "\<forall>j. Suc i \<le> j \<and> j < k \<longrightarrow> \<not> batch_fails R ow P j"
    using Suc.prems by simp
  have u: "[i..<Suc k] = i # [Suc i..<Suc k]" using lt by (simp add: upt_conv_Cons)
  show ?case
    by (simp only: upload_chunks_step_ok [OF ltc ok]
        Suc.hyps(1) [OF n le Suc.prems(2) rest Suc.prems(4)] u)
       simp
qed

lemma concat_chunks: "concat (map (chunk_at P) [0..<m]) = take (m * chunkSize) P"
proof (induction m)
  case 0
  show ?case by simp
next
  case (Suc m)
  have "take (m * chunkSize + chunkSize) P =
          take (m * chunkSize) P @ take chunkSize (drop (m * chunkSize) P)"
    by (rule take_add)
  then have t: "take (Suc m * chunkSize) P =
          take (m * chunkSize) P @ take chunkSize (drop (m * chunkSize) P)"
    by (simp add: add.commute)
  have "concat (map (chunk_at P) [0..<Suc m]) =
          concat (map (chunk_at P) [0..<m]) @ chunk_at P m"
    by simp
  also have "\<dots> = take (m * chunkSize) P @ take chunkSize (drop (m * chunkSize) P)"
    by (simp only: Suc.IH chunk_at_def)
  finally show ?case by (simp only: t)
qed

lemma chunks_cover: "length P \<le> chunks_of (length P) * chunkSize"
  by (simp add: chunks_of_def chunkSize_def)

lemma sum_chunk_lengths:
  "sum_list (map (\<lambda>j. length (chunk_at P j)) [0..<chunks_of (length P)]) = length P"
proof -
  have "sum_list (map (\<lambda>j. length (chunk_at P j)) [0..<chunks_of (length P)]) =
          length (concat (map (chunk_at P) [0..<chunks_of (length P)]))"
    by (simp add: length_concat comp_def)
  also have "\<dots> = length P"
    using chunks_cover [of P] by (simp add: concat_chunks)
  finally show ?thesis .
qed

lemma run_reaches_upload:
  assumes "reaches_upload L F R I"
  shows "run L F R I =
     (case upload_chunks R (overwrite I) (planned_files L F I)
             (chunks_of (length (planned_files L F I))) 0 0 of
        (ev2, bs, r) \<Rightarrow>
          \<lparr> events = before_upload L F R I @ ev2 @ [Close],
            batches = bs,
            result = (case r of Inl m \<Rightarrow> Failed m | Inr n \<Rightarrow> Succeeded),
            sshHelper = True \<rparr>)"
proof -
  have c: "reaches_copy L F R I"
    and s: "\<not> isl (getFilesToCopy L F (sourceFolder I) (contents I))"
    and d: "list_all (\<lambda>d. createRemoteDirectory R d = None) (planned_folders L F I)"
    using assms by (simp_all add: reaches_upload_def)
  from s obtain fs where g: "getFilesToCopy L F (sourceFolder I) (contents I) = Inr fs"
    by (cases "getFilesToCopy L F (sourceFolder I) (contents I)") auto
  have sel: "selected_files L F I = fs" by (simp add: selected_files_def g)
  have cf: "create_folders R
              (getUniqueFolders L (sort (map snd
                 (prepareFiles L fs (sourceFolder I) (resolve_targetFolder (targetFolder I))
                    (flattenFolders I))))) =
            (folder_events (planned_folders L F I), None)"
    using create_folders_ok [OF d] by (simp add: planned_folders_def planned_files_def sel)
  show ?thesis
    unfolding run_reaches_copy [OF c] copy_files_def g Let_def js_truthy_def
    by (simp add: cf before_upload_def planned_files_def planned_folders_def sel
        split: prod.splits sum.splits)
qed

lemma clean_target_events: "list_all session_event (fst (clean_target L R I t))"
  by (simp add: clean_target_def Let_def split: sum.splits option.splits)

lemma folder_events_session: "list_all session_event (folder_events ds)"
  by (induction ds) (simp_all add: folder_events_def)

lemma copy_task_events: "list_all session_event (fst (copy_task R ow p))"
  by (cases p) (simp add: copy_task_def upload_task_def split: sum.splits option.splits)

lemma batch_events_session: "list_all session_event (batch_events R ow P j)"
  by (simp add: batch_events_def run_batch_def list_all_iff copy_task_events [unfolded list_all_iff])

lemma upload_chunks_events: "list_all session_event (fst (upload_chunks R ow P chunks i s))"
proof (induction "chunks - i" arbitrary: i s)
  case 0
  then have "\<not> i < chunks" by simp
  then show ?case by (simp add: upload_chunks_done)
next
  case (Suc n)
  then have lt: "i < chunks" by simp
  have n: "n = chunks - Suc i" using Suc.hyps(2) by simp
  show ?case
  proof (cases "batch_fails R ow P i")
    case True
    show ?thesis
      using batch_events_session [of R ow P i]
      by (auto simp: upload_chunks_step_fail [OF lt True] list_all_iff)
  next
    case False
    from Suc.hyps(1) [OF n, of "s + length (filter is_fulfilled (batch_results R ow P i))"]
    show ?thesis
      using batch_events_session [of R ow P i]
      by (auto simp: upload_chunks_step_ok [OF lt False] split: prod.splits)
  qed
qed

lemma create_folders_events: "list_all session_event (fst (create_folders R ds))"
  by (induction ds) (auto split: option.splits prod.splits)

lemma copy_files_events: "list_all session_event (fst (copy_files L F R I t))"
proof (cases "getFilesToCopy L F (sourceFolder I) (contents I)")
  case (Inl e)
  then show ?thesis by (simp add: copy_files_def)
next
  case (Inr fs)
  let ?P = "prepareFiles L fs (sourceFolder I) t (flattenFolders I)"
  let ?ds = "getUniqueFolders L (sort (map snd ?P))"
  obtain ev1 r1 where c: "create_folders R ?ds = (ev1, r1)"
    by (cases "create_folders R ?ds")
  obtain ev2 bs r2 where
    u: "upload_chunks R (overwrite I) ?P (chunks_of (length ?P)) 0 0 = (ev2, bs, r2)"
    by (cases "upload_chunks R (overwrite I) ?P (chunks_of (length ?P)) 0 0")
  have e1: "list_all session_event ev1"
    using create_folders_events [of R ?ds] c by simp
  have e2: "list_all session_event ev2"
    using upload_chunks_events [of R "overwrite I" ?P "chunks_of (length ?P)" 0 0] u by simp
  show ?thesis
    using e1 e2
    by (simp add: copy_files_def Inr Let_def js_truthy_def c u split: option.splits)
qed

lemma session_events: "list_all session_event (fst (session L F R I t))"
  using copy_files_events [of L F R I t] clean_target_events [of L R I t]
  by (auto simp: session_def split: option.splits prod.splits sum.splits)

lemma session_event_not_close: "list_all session_event ev \<Longrightarrow> filter (\<lambda>e. e = Close) ev = []"
  by (induction ev) auto

text \<open>
  C9: when the session object was created (the source folder check passed), the trace of
  the run contains the closing of the connection exactly once, as its last entry,
  whatever the outcome of the connection setup and of every later phase. A run that
  ends before the session object exists makes no call at all.
\<close>

theorem session_closed_exactly_once:
  "(sshHelper (run L F R I) \<longrightarrow>
      length (filter (\<lambda>e. e = Close) (events (run L F R I))) = 1
      \<and> last (events (run L F R I)) = Close)
   \<and> sshHelper (run L F R I) = tl_isDirectory F (sourceFolder I)
   \<and> (\<not> sshHelper (run L F R I) \<longrightarrow> events (run L F R I) = [])"
  using session_event_not_close [OF session_events [of L F R I "resolve_targetFolder (targetFolder I)"]]
  by (auto simp: run_def Let_def split: prod.splits)


theorem session_closed_exactly_once_witness:
  "sshHelper (run posix_lib small_tree (quiet_remote \<lparr> setupConnection := Some (js ''refused'') \<rparr>)
               (plain_inputs [js ''a.txt'']))
   \<and> length (filter (\<lambda>e. e = Close)
        (events (run posix_lib small_tree (quiet_remote \<lparr> setupConnection := Some (js ''refused'') \<rparr>)
                   (plain_inputs [js ''a.txt''])))) = 1
   \<and> last (events (run posix_lib small_tree (quiet_remote \<lparr> setupConnection := Some (js ''refused'') \<rparr>)
                   (plain_inputs [js ''a.txt'']))) = Close
   \<and> result (run posix_lib small_tree (quiet_remote \<lparr> setupConnection := Some (js ''refused'') \<rparr>)
                   (plain_inputs [js ''a.txt''])) = Failed (Thrown (js ''refused''))"
proof -
  let ?r = "run posix_lib small_tree (quiet_remote \<lparr> setupConnection := Some (js ''refused'') \<rparr>)
              (plain_inputs [js ''a.txt''])"
  have h: "sshHelper ?r" by code_simp
  have v: "result ?r = Failed (Thrown (js ''refused''))" by code_simp
  from session_closed_exactly_once
         [of posix_lib small_tree "quiet_remote \<lparr> setupConnection := Some (js ''refused'') \<rparr>"
            "plain_inputs [js ''a.txt'']"] h v
  show ?thesis by blast
qed


lemma no_upload_in_folder_events: "Upload l t \<notin> set (folder_events ds)"
  by (induction ds) (simp_all add: folder_events_def)

lemma no_upload_in_clean_target: "Upload l t \<notin> set (fst (clean_target L R I tf))"
  by (simp add: clean_target_def Let_def split: sum.splits option.splits)

text \<open>When some planned folder cannot be created, there is a first one.\<close>

lemma first_failing_folder:
  assumes "\<not> list_all (\<lambda>d. createRemoteDirectory R d = None) ds"
  shows "\<exists>pre d post err. ds = pre @ d # post
           \<and> list_all (\<lambda>d. createRemoteDirectory R d = None) pre
           \<and> createRemoteDirectory R d = Some err"
proof -
  from assms have "\<exists>d \<in> set ds. createRemoteDirectory R d \<noteq> None"
    by (auto simp: list_all_iff)
  then obtain pre d post where "ds = pre @ d # post"
    and "createRemoteDirectory R d \<noteq> None"
    and "\<forall>p \<in> set pre. \<not> createRemoteDirectory R p \<noteq> None"
    by (auto dest!: split_list_first_prop)
  then show ?thesis by (auto simp: list_all_iff)
qed

text \<open>
  C5: when the creation of a planned folder fails (the folders before it in the plan
  having been created), the run ends with the failure verdict that names this folder
  and the error; the call that failed is the last one before the connection is closed,
  and the trace of the run has no upload.
\<close>

theorem directory_failure_is_fatal:
  assumes "reaches_copy L F R I"
    and "planned_folders L F I = pre @ d # post"
    and "list_all (\<lambda>p. createRemoteDirectory R p = None) pre"
    and "createRemoteDirectory R d = Some err"
  shows "result (run L F R I) = Failed (TargetNotCreated d err)
         \<and> events (run L F R I) =
             SetupConnection # fst (clean_target L R I (resolve_targetFolder (targetFolder I))) @
             Log (CopyingFiles (length (planned_files L F I))) #
             folder_events pre @ [CreateDir d, Close]
         \<and> (\<forall>l t. Upload l t \<notin> set (events (run L F R I)))
         \<and> batches (run L F R I) = []"
proof -
  obtain fs where g: "getFilesToCopy L F (sourceFolder I) (contents I) = Inr fs"
  proof (cases "getFilesToCopy L F (sourceFolder I) (contents I)")
    case (Inl e)
    then have "planned_folders L F I = []"
      by (simp add: planned_folders_def planned_files_def selected_files_def
          prepareFiles_def getUniqueFolders_def)
    with assms(2) show ?thesis by simp
  next
    case (Inr fs)
    with that show ?thesis by blast
  qed
  have sel: "selected_files L F I = fs" by (simp add: selected_files_def g)
  have cf: "create_folders R
              (getUniqueFolders L (sort (map snd
                 (prepareFiles L fs (sourceFolder I) (resolve_targetFolder (targetFolder I))
                    (flattenFolders I))))) =
            (folder_events pre @ [CreateDir d], Some (TargetNotCreated d err))"
    using create_folders_fail [OF assms(3,4), of post] assms(2)
    by (simp add: planned_folders_def planned_files_def sel)
  have r: "run L F R I =
      \<lparr> events = SetupConnection #
                fst (clean_target L R I (resolve_targetFolder (targetFolder I))) @
                (Log (CopyingFiles (length (planned_files L F I))) #
                 folder_events pre @ [CreateDir d]) @ [Close],
        batches = [], result = Failed (TargetNotCreated d err), sshHelper = True \<rparr>"
    unfolding run_reaches_copy [OF assms(1)] copy_files_def g Let_def js_truthy_def
    by (simp add: cf planned_files_def sel)
  show ?thesis
    by (simp add: r no_upload_in_folder_events no_upload_in_clean_target)
qed

theorem directory_failure_is_fatal_witness:
  "result (run posix_lib small_tree (denying_remote (js ''./dest/sub'')) (plain_inputs [js ''!b.log'']))
     = Failed (TargetNotCreated (js ''./dest/sub'') (js ''denied''))
   \<and> events (run posix_lib small_tree (denying_remote (js ''./dest/sub'')) (plain_inputs [js ''!b.log'']))
     = [SetupConnection, Log (CopyingFiles 2), CreateDir (js ''./dest''),
        Log (FolderCreated (js ''./dest'')), CreateDir (js ''./dest/sub''), Close]"
proof -
  let ?R = "denying_remote (js ''./dest/sub'')"
  let ?I = "plain_inputs [js ''!b.log'']"
  have h1: "reaches_copy posix_lib small_tree ?R ?I" by code_simp
  have h2: "planned_folders posix_lib small_tree ?I = [js ''./dest''] @ (js ''./dest/sub'') # []"
    by code_simp
  have h3: "list_all (\<lambda>p. createRemoteDirectory ?R p = None) [js ''./dest'']" by code_simp
  have h4: "createRemoteDirectory ?R (js ''./dest/sub'') = Some (js ''denied'')" by code_simp
  have v: "SetupConnection #
             fst (clean_target posix_lib ?R ?I (resolve_targetFolder (targetFolder ?I))) @
             Log (CopyingFiles (length (planned_files posix_lib small_tree ?I))) #
             folder_events [js ''./dest''] @ [CreateDir (js ''./dest/sub''), Close] =
           [SetupConnection, Log (CopyingFiles 2), CreateDir (js ''./dest''),
            Log (FolderCreated (js ''./dest'')), CreateDir (js ''./dest/sub''), Close]"
    by code_simp
  from directory_failure_is_fatal [OF h1 h2 h3 h4] v show ?thesis by (simp only:)
qed

text \<open>
  C1, evaluated: no file matches the pattern, so the selection is empty. The empty array
  passes the test of line 234, the run takes the copy path with no folder and no batch,
  reports zero files copied and succeeds, with no warning, whether
  \<^verbatim>\<open>failOnEmptySource\<close> is set or not.
\<close>

theorem empty_selection_takes_copy_path:
  "getFilesToCopy posix_lib small_tree (js ''/src'') [js ''missing.txt''] = Inr []
   \<and> events (run posix_lib small_tree quiet_remote
               ((plain_inputs [js ''missing.txt'']) \<lparr> failOnEmptySource := True \<rparr>)) =
       [SetupConnection, Log (CopyingFiles 0), Log (FoldersCreated 0), Log (CopyCompleted 0), Close]
   \<and> result (run posix_lib small_tree quiet_remote
               ((plain_inputs [js ''missing.txt'']) \<lparr> failOnEmptySource := True \<rparr>)) = Succeeded
   \<and> events (run posix_lib small_tree quiet_remote (plain_inputs [js ''missing.txt''])) =
       [SetupConnection, Log (CopyingFiles 0), Log (FoldersCreated 0), Log (CopyCompleted 0), Close]
   \<and> result (run posix_lib small_tree quiet_remote (plain_inputs [js ''missing.txt''])) = Succeeded"
  by code_simp

text \<open>No run emits a warning: the branches of lines 295 to 299 are never taken.\<close>

lemma warning_never_emitted: "Warning m \<notin> set (events (run L F R I))"
proof -
  have "list_all session_event (fst (session L F R I (resolve_targetFolder (targetFolder I))))"
    by (rule session_events)
  then have "Warning m \<notin> set (fst (session L F R I (resolve_targetFolder (targetFolder I))))"
    by (auto simp: list_all_iff)
  then show ?thesis by (auto simp: run_def Let_def split: prod.splits)
qed


text \<open>No run fails for want of files to copy.\<close>

lemma create_folders_result: "snd (create_folders R ds) \<noteq> Some NothingToCopy"
  by (induction ds) (auto split: option.splits prod.splits)

lemma upload_chunks_result: "snd (snd (upload_chunks R ow P chunks i s)) \<noteq> Inl NothingToCopy"
proof (induction "chunks - i" arbitrary: i s)
  case 0
  then have "\<not> i < chunks" by simp
  then show ?case by (simp add: upload_chunks_done)
next
  case (Suc n)
  then have lt: "i < chunks" by simp
  have n: "n = chunks - Suc i" using Suc.hyps(2) by simp
  show ?case
  proof (cases "batch_fails R ow P i")
    case True
    show ?thesis by (simp add: upload_chunks_step_fail [OF lt True])
  next
    case False
    from Suc.hyps(1) [OF n, of "s + length (filter is_fulfilled (batch_results R ow P i))"]
    show ?thesis
      by (auto simp: upload_chunks_step_ok [OF lt False] split: prod.splits)
  qed
qed

lemma copy_files_result: "snd (snd (copy_files L F R I t)) \<noteq> Some NothingToCopy"
proof (cases "getFilesToCopy L F (sourceFolder I) (contents I)")
  case (Inl e)
  then show ?thesis by (simp add: copy_files_def)
next
  case (Inr fs)
  let ?P = "prepareFiles L fs (sourceFolder I) t (flattenFolders I)"
  let ?ds = "getUniqueFolders L (sort (map snd ?P))"
  obtain ev1 r1 where c: "create_folders R ?ds = (ev1, r1)"
    by (cases "create_folders R ?ds")
  obtain ev2 bs r2 where
    u: "upload_chunks R (overwrite I) ?P (chunks_of (length ?P)) 0 0 = (ev2, bs, r2)"
    by (cases "upload_chunks R (overwrite I) ?P (chunks_of (length ?P)) 0 0")
  have e1: "r1 \<noteq> Some NothingToCopy"
    using create_folders_result [of R ?ds] c by simp
  have e2: "r2 \<noteq> Inl NothingToCopy"
    using upload_chunks_result [of R "overwrite I" ?P "chunks_of (length ?P)" 0 0] u by simp
  show ?thesis
    using e1 e2
    by (auto simp: copy_files_def Inr Let_def js_truthy_def c u
        split: option.splits sum.splits)
qed

lemma nothing_to_copy_never_fatal: "result (run L F R I) \<noteq> Failed NothingToCopy"
proof -
  let ?t = "resolve_targetFolder (targetFolder I)"
  have "snd (snd (session L F R I ?t)) \<noteq> Some NothingToCopy"
    using copy_files_result [of L F R I ?t]
    by (auto simp: session_def clean_target_def Let_def
        split: option.splits prod.splits sum.splits if_splits)
  then show ?thesis
    by (auto simp: run_def Let_def split: prod.splits option.splits)
qed

lemma rejected_before_first_failure:
  assumes "\<forall>j<k. \<not> batch_fails R ow P j"
  shows "filter is_rejected (concat (map (batch_results R ow P) [0..<Suc k])) =
           filter is_rejected (batch_results R ow P k)"
proof -
  have "concat (map (\<lambda>j. filter is_rejected (batch_results R ow P j)) [0..<k]) = []"
    using assms by (simp add: batch_fails_def)
  then show ?thesis by (simp add: filter_concat comp_def)
qed

text \<open>
  C6: a run that gets as far as the upload. Twenty-five files make three batches. When
  no batch has a failure, every batch is dispatched, in order, the run succeeds and
  reports the number of all files as copied. When the batch of index \<open>k\<close> is the
  first with a failure, the batches dispatched are those of index 0 to \<open>k\<close> and no
  other, the trace ends with the errors of batch \<open>k\<close> and the closing of the
  connection, and the verdict is the failure that counts the rejected files of all
  batches dispatched.
\<close>

theorem batches_stop_at_first_failure:
  assumes "reaches_upload L F R I"
  shows "(length (planned_files L F I) = 25 \<longrightarrow> chunks_of (length (planned_files L F I)) = 3)
    \<and> ((\<forall>j < chunks_of (length (planned_files L F I)).
            \<not> batch_fails R (overwrite I) (planned_files L F I) j) \<longrightarrow>
          batches (run L F R I) =
            map (batch_results R (overwrite I) (planned_files L F I))
              [0..<chunks_of (length (planned_files L F I))]
          \<and> result (run L F R I) = Succeeded
          \<and> events (run L F R I) =
              before_upload L F R I @
              concat (map (batch_events R (overwrite I) (planned_files L F I))
                        [0..<chunks_of (length (planned_files L F I))]) @
              [Log (CopyCompleted (length (planned_files L F I))), Close])
    \<and> (\<forall>k < chunks_of (length (planned_files L F I)).
          batch_fails R (overwrite I) (planned_files L F I) k
          \<and> (\<forall>j<k. \<not> batch_fails R (overwrite I) (planned_files L F I) j) \<longrightarrow>
          batches (run L F R I) =
            map (batch_results R (overwrite I) (planned_files L F I)) [0..<Suc k]
          \<and> result (run L F R I) =
              Failed (NumberFailed (length (filter is_rejected (concat (batches (run L F R I))))))
          \<and> events (run L F R I) =
              before_upload L F R I @
              concat (map (batch_events R (overwrite I) (planned_files L F I)) [0..<Suc k]) @
              map (\<lambda>x. Error (reason x))
                (filter is_rejected (batch_results R (overwrite I) (planned_files L F I) k)) @
              [Close])"
proof -
  let ?P = "planned_files L F I"
  let ?ow = "overwrite I"
  let ?c = "chunks_of (length ?P)"
  note r = run_reaches_upload [OF assms]
  have a: "length ?P = 25 \<longrightarrow> ?c = 3"
    by (simp add: chunks_of_def chunkSize_def)
  have b: "batches (run L F R I) = map (batch_results R ?ow ?P) [0..<?c]
           \<and> result (run L F R I) = Succeeded
           \<and> events (run L F R I) =
               before_upload L F R I @ concat (map (batch_events R ?ow ?P) [0..<?c]) @
               [Log (CopyCompleted (length ?P)), Close]"
    if ok: "\<forall>j < ?c. \<not> batch_fails R ?ow ?P j"
  proof -
    have "\<forall>j. 0 \<le> j \<and> j < ?c \<longrightarrow> \<not> batch_fails R ?ow ?P j" using ok by simp
    from upload_chunks_all_ok [OF this, of 0] show ?thesis
      by (simp add: r sum_chunk_lengths)
  qed
  have c: "batches (run L F R I) = map (batch_results R ?ow ?P) [0..<Suc k]
           \<and> result (run L F R I) =
               Failed (NumberFailed (length (filter is_rejected (concat (batches (run L F R I))))))
           \<and> events (run L F R I) =
               before_upload L F R I @ concat (map (batch_events R ?ow ?P) [0..<Suc k]) @
               map (\<lambda>x. Error (reason x)) (filter is_rejected (batch_results R ?ow ?P k)) @
               [Close]"
    if k: "k < ?c" and f: "batch_fails R ?ow ?P k"
      and ok: "\<forall>j<k. \<not> batch_fails R ?ow ?P j" for k
  proof -
    have pre: "\<forall>j. 0 \<le> j \<and> j < k \<longrightarrow> \<not> batch_fails R ?ow ?P j" using ok by simp
    have u: "upload_chunks R ?ow ?P ?c 0 0 =
       (concat (map (batch_events R ?ow ?P) [0..<Suc k]) @
          map (\<lambda>x. Error (reason x)) (filter is_rejected (batch_results R ?ow ?P k)),
        map (batch_results R ?ow ?P) [0..<Suc k],
        Inl (NumberFailed (length (filter is_rejected (batch_results R ?ow ?P k)))))"
      by (rule upload_chunks_first_fail [OF _ k pre f]) simp
    have rr: "run L F R I =
       \<lparr> events = before_upload L F R I @
                 (concat (map (batch_events R ?ow ?P) [0..<Suc k]) @
                  map (\<lambda>x. Error (reason x)) (filter is_rejected (batch_results R ?ow ?P k))) @
                 [Close],
         batches = map (batch_results R ?ow ?P) [0..<Suc k],
         result = Failed (NumberFailed (length (filter is_rejected (batch_results R ?ow ?P k)))),
         sshHelper = True \<rparr>"
      by (simp add: r u)
    show ?thesis
      by (simp add: rr rejected_before_first_failure [OF ok] del: upt_Suc)
  qed
  from a b c show ?thesis by blast
qed


theorem batches_stop_at_first_failure_witness:
  "chunks_of (length (planned_files posix_lib big_tree (plain_inputs [js ''!none.txt'']))) = 3
   \<and> length (batches (run posix_lib big_tree
                 (holding_remote ((js ''./dest/'') @ replicate 12 (code_unit CHR ''a'')))
                 (plain_inputs [js ''!none.txt'']))) = 2
   \<and> result (run posix_lib big_tree
                 (holding_remote ((js ''./dest/'') @ replicate 12 (code_unit CHR ''a'')))
                 (plain_inputs [js ''!none.txt''])) = Failed (NumberFailed 1)"
proof -
  let ?R = "holding_remote ((js ''./dest/'') @ replicate 12 (code_unit CHR ''a''))"
  let ?I = "plain_inputs [js ''!none.txt'']"
  let ?P = "planned_files posix_lib big_tree ?I"
  let ?r = "run posix_lib big_tree ?R ?I"
  have h: "reaches_upload posix_lib big_tree ?R ?I" by code_simp
  have n: "length ?P = 25" by code_simp
  have k: "1 < chunks_of (length ?P)" by code_simp
  have f0: "\<not> batch_fails ?R (overwrite ?I) ?P 0" by code_simp
  have f1: "batch_fails ?R (overwrite ?I) ?P 1" by code_simp
  have f: "batch_fails ?R (overwrite ?I) ?P 1 \<and> (\<forall>j<1. \<not> batch_fails ?R (overwrite ?I) ?P j)"
    using f0 f1 by simp
  have c: "length (filter is_rejected
             (concat (map (batch_results ?R (overwrite ?I) ?P) [0..<Suc 1]))) = 1"
    by code_simp
  note t = batches_stop_at_first_failure [OF h]
  from t n have a: "chunks_of (length ?P) = 3" by blast
  from t k f have b: "batches ?r = map (batch_results ?R (overwrite ?I) ?P) [0..<Suc 1]
      \<and> result ?r = Failed (NumberFailed (length (filter is_rejected (concat (batches ?r)))))"
    by blast
  from b have l: "length (batches ?r) = 2" by simp
  from b c have v: "result ?r = Failed (NumberFailed 1)" by (simp only:)
  from a l v show ?thesis by blast
qed

lemma upload_in_copy_task:
  "Upload l t \<in> set (fst (copy_task R ow p)) \<longleftrightarrow>
     p = (l, t) \<and> (ow \<or> checkRemotePathExists R t = Inr False)"
  by (cases p) (auto simp: copy_task_def upload_task_def split: sum.splits)

lemma set_chunk_at: "set (chunk_at P j) \<subseteq> set P"
  unfolding chunk_at_def
  by (meson set_take_subset set_drop_subset subset_trans)

lemma upload_in_batch_events:
  "Upload l t \<in> set (batch_events R ow P j) \<longleftrightarrow>
     (l, t) \<in> set (chunk_at P j) \<and> (ow \<or> checkRemotePathExists R t = Inr False)"
  by (auto simp: batch_events_def run_batch_def upload_in_copy_task)

lemma upload_origin:
  "Upload l t \<in> set (fst (upload_chunks R ow P chunks i s)) \<Longrightarrow>
   (l, t) \<in> set P \<and> (ow \<or> checkRemotePathExists R t = Inr False)"
proof (induction "chunks - i" arbitrary: i s)
  case 0
  then have "\<not> i < chunks" by simp
  then show ?case using 0 by (simp add: upload_chunks_done)
next
  case (Suc n)
  then have lt: "i < chunks" by simp
  have n: "n = chunks - Suc i" using Suc.hyps(2) by simp
  show ?case
  proof (cases "batch_fails R ow P i")
    case True
    then show ?thesis
      using Suc.prems set_chunk_at [of P i]
      by (auto simp: upload_chunks_step_fail [OF lt True] upload_in_batch_events)
  next
    case False
    show ?thesis
      using Suc.prems Suc.hyps(1) [OF n, of "s + length (filter is_fulfilled (batch_results R ow P i))"]
        set_chunk_at [of P i]
      by (auto simp: upload_chunks_step_ok [OF lt False] upload_in_batch_events
          split: prod.splits)
  qed
qed

lemma batch_dispatched:
  assumes "i \<le> k" and "k < chunks"
    and "\<forall>j. i \<le> j \<and> j < k \<longrightarrow> \<not> batch_fails R ow P j"
  shows "k - i < length (fst (snd (upload_chunks R ow P chunks i s)))
       \<and> fst (snd (upload_chunks R ow P chunks i s)) ! (k - i) = batch_results R ow P k
       \<and> set (batch_events R ow P k) \<subseteq> set (fst (upload_chunks R ow P chunks i s))
       \<and> (\<forall>x \<in> set (filter is_rejected (batch_results R ow P k)).
            Error (reason x) \<in> set (fst (upload_chunks R ow P chunks i s)))"
  using assms
proof (induction "k - i" arbitrary: i s)
  case 0
  then have e: "i = k" by simp
  show ?case
  proof (cases "batch_fails R ow P k")
    case True
    show ?thesis using 0 e by (auto simp: upload_chunks_step_fail [OF _ True])
  next
    case False
    then have nf: "filter is_rejected (batch_results R ow P k) = []"
      by (simp add: batch_fails_def)
    show ?thesis using 0 e
      by (auto simp: upload_chunks_step_ok [OF _ False] nf split: prod.splits)
  qed
next
  case (Suc n)
  then have lt: "i < k" by simp
  then have ltc: "i < chunks" using Suc.prems by simp
  have ok: "\<not> batch_fails R ow P i" using Suc.prems lt by simp
  have n: "n = k - Suc i" using Suc.hyps(2) by simp
  have le: "Suc i \<le> k" using lt by simp
  have rest: "\<forall>j. Suc i \<le> j \<and> j < k \<longrightarrow> \<not> batch_fails R ow P j"
    using Suc.prems by simp
  have d: "k - i = Suc (k - Suc i)" using lt by simp
  from Suc.hyps(1) [OF n le Suc.prems(2) rest,
      of "s + length (filter is_fulfilled (batch_results R ow P i))"]
  show ?case
    unfolding upload_chunks_step_ok [OF ltc ok] d
    by (auto split: prod.splits)
qed


lemma no_upload_before_upload: "Upload l t \<notin> set (before_upload L F R I)"
  by (simp add: before_upload_def no_upload_in_folder_events no_upload_in_clean_target)

text \<open>
  C7: a file \<open>(l, t)\<close> of a batch that is dispatched. The results of the batch are
  the results of the tasks of its files, each taken alone. When overwriting is off and
  the remote path \<open>t\<close> exists, the result of the file is the rejection "file exists",
  the run never uploads it, and the rejection is reported; otherwise its result is that
  of the upload. Every file of the batch whose path does not exist (or any file, when
  overwriting is on) is uploaded, whatever happens to the other files of the batch.
\<close>

theorem overwrite_protection_per_file:
  assumes "reaches_upload L F R I"
    and "k < chunks_of (length (planned_files L F I))"
    and "\<forall>j<k. \<not> batch_fails R (overwrite I) (planned_files L F I) j"
    and "(l, t) \<in> set (chunk_at (planned_files L F I) k)"
  shows "k < length (batches (run L F R I))
     \<and> batches (run L F R I) ! k =
         map (\<lambda>p. snd (copy_task R (overwrite I) p)) (chunk_at (planned_files L F I) k)
     \<and> (\<not> overwrite I \<and> checkRemotePathExists R t = Inr True \<longrightarrow>
          copy_task R (overwrite I) (l, t) =
            ([Log (StartedFileCopy l t), Exists t], Rejected (FileExists t))
          \<and> Upload l t \<notin> set (events (run L F R I))
          \<and> Error (FileExists t) \<in> set (events (run L F R I)))
     \<and> (overwrite I \<or> checkRemotePathExists R t = Inr False \<longrightarrow>
          snd (copy_task R (overwrite I) (l, t)) =
            (case uploadFile R l t of None \<Rightarrow> Fulfilled | Some e \<Rightarrow> Rejected (Thrown e)))
     \<and> (\<forall>(l', t') \<in> set (chunk_at (planned_files L F I) k).
          overwrite I \<or> checkRemotePathExists R t' = Inr False \<longrightarrow>
            Upload l' t' \<in> set (events (run L F R I)))"
proof -
  let ?P = "planned_files L F I"
  let ?ow = "overwrite I"
  let ?c = "chunks_of (length ?P)"
  obtain ev bs r where u: "upload_chunks R ?ow ?P ?c 0 0 = (ev, bs, r)"
    by (cases "upload_chunks R ?ow ?P ?c 0 0")
  have ev: "events (run L F R I) = before_upload L F R I @ ev @ [Close]"
    and bs: "batches (run L F R I) = bs"
    by (simp_all add: run_reaches_upload [OF assms(1)] u)
  have pre: "\<forall>j. 0 \<le> j \<and> j < k \<longrightarrow> \<not> batch_fails R ?ow ?P j" using assms(3) by simp
  from batch_dispatched [OF _ assms(2) pre, of 0] u
  have d1: "k < length bs" and d2: "bs ! k = batch_results R ?ow ?P k"
    and d3: "set (batch_events R ?ow ?P k) \<subseteq> set ev"
    and d4: "\<forall>x \<in> set (filter is_rejected (batch_results R ?ow ?P k)). Error (reason x) \<in> set ev"
    by simp_all
  have a: "batches (run L F R I) ! k = map (\<lambda>p. snd (copy_task R ?ow p)) (chunk_at ?P k)"
    by (simp add: bs d2 batch_results_def run_batch_def)
  have b: "copy_task R ?ow (l, t) = ([Log (StartedFileCopy l t), Exists t], Rejected (FileExists t))
           \<and> Upload l t \<notin> set (events (run L F R I))
           \<and> Error (FileExists t) \<in> set (events (run L F R I))"
    if no: "\<not> ?ow" and ex: "checkRemotePathExists R t = Inr True"
  proof -
    have ct: "copy_task R ?ow (l, t) =
                ([Log (StartedFileCopy l t), Exists t], Rejected (FileExists t))"
      using no ex by (simp add: copy_task_def)
    have "Upload l t \<notin> set ev"
      using upload_origin [of l t R ?ow ?P ?c 0 0] u no ex by auto
    then have nu: "Upload l t \<notin> set (events (run L F R I))"
      by (simp add: ev no_upload_before_upload)
    have "Rejected (FileExists t) \<in> set (filter is_rejected (batch_results R ?ow ?P k))"
      using assms(4) ct by (force simp: batch_results_def run_batch_def)
    with d4 have "Error (reason (Rejected (FileExists t))) \<in> set ev" by blast
    then have "Error (FileExists t) \<in> set (events (run L F R I))" by (simp add: ev)
    with ct nu show ?thesis by blast
  qed
  have c: "snd (copy_task R ?ow (l, t)) =
             (case uploadFile R l t of None \<Rightarrow> Fulfilled | Some e \<Rightarrow> Rejected (Thrown e))"
    if "?ow \<or> checkRemotePathExists R t = Inr False"
    using that by (auto simp: copy_task_def upload_task_def)
  have d: "\<forall>(l', t') \<in> set (chunk_at ?P k).
             ?ow \<or> checkRemotePathExists R t' = Inr False \<longrightarrow>
               Upload l' t' \<in> set (events (run L F R I))"
  proof -
    have "Upload l' t' \<in> set ev"
      if "(l', t') \<in> set (chunk_at ?P k)"
        and "?ow \<or> checkRemotePathExists R t' = Inr False" for l' t'
    proof -
      have "Upload l' t' \<in> set (batch_events R ?ow ?P k)"
        using that by (simp add: upload_in_batch_events)
      with d3 show ?thesis by blast
    qed
    then show ?thesis by (auto simp: ev)
  qed
  from d1 bs a b c d show ?thesis by blast
qed

theorem overwrite_protection_per_file_witness:
  "snd (copy_task (holding_remote (js ''./dest/a.txt'')) False ((js ''/src/a.txt''), (js ''./dest/a.txt'')))
     = Rejected (FileExists (js ''./dest/a.txt''))
   \<and> Upload (js ''/src/a.txt'') (js ''./dest/a.txt'') \<notin>
       set (events (run posix_lib small_tree (holding_remote (js ''./dest/a.txt''))
                      (plain_inputs [js ''!b.log''])))
   \<and> Upload (js ''/src/sub/c.log'') (js ''./dest/sub/c.log'') \<in>
       set (events (run posix_lib small_tree (holding_remote (js ''./dest/a.txt''))
                      (plain_inputs [js ''!b.log''])))"
proof -
  let ?R = "holding_remote (js ''./dest/a.txt'')"
  let ?I = "plain_inputs [js ''!b.log'']"
  let ?P = "planned_files posix_lib small_tree ?I"
  have h1: "reaches_upload posix_lib small_tree ?R ?I" by code_simp
  have h2: "0 < chunks_of (length ?P)" by code_simp
  have h3: "\<forall>j<0. \<not> batch_fails ?R (overwrite ?I) ?P j" by simp
  have h4: "((js ''/src/a.txt''), (js ''./dest/a.txt'')) \<in> set (chunk_at ?P 0)" by code_simp
  have m: "((js ''/src/sub/c.log''), (js ''./dest/sub/c.log'')) \<in> set (chunk_at ?P 0)" by code_simp
  have o: "\<not> overwrite ?I" by code_simp
  have e1: "checkRemotePathExists ?R (js ''./dest/a.txt'') = Inr True" by code_simp
  have e2: "checkRemotePathExists ?R (js ''./dest/sub/c.log'') = Inr False" by code_simp
  note t = overwrite_protection_per_file [OF h1 h2 h3 h4]
  from t o e1 have a: "copy_task ?R (overwrite ?I) ((js ''/src/a.txt''), (js ''./dest/a.txt'')) =
      ([Log (StartedFileCopy (js ''/src/a.txt'') (js ''./dest/a.txt'')), Exists (js ''./dest/a.txt'')],
       Rejected (FileExists (js ''./dest/a.txt'')))
    \<and> Upload (js ''/src/a.txt'') (js ''./dest/a.txt'') \<notin> set (events (run posix_lib small_tree ?R ?I))"
    by blast
  from t have "\<forall>(l', t') \<in> set (chunk_at ?P 0).
          overwrite ?I \<or> checkRemotePathExists ?R t' = Inr False \<longrightarrow>
            Upload l' t' \<in> set (events (run posix_lib small_tree ?R ?I))"
    by blast
  with m e2 have b: "Upload (js ''/src/sub/c.log'') (js ''./dest/sub/c.log'') \<in>
      set (events (run posix_lib small_tree ?R ?I))"
    by fast
  have f: "overwrite ?I = False" using o by simp
  from a b show ?thesis unfolding f by simp
qed


end
